theory Spec2Isabelle
  imports Complex_Main "HOL-Library.AList"
begin

section \<open>Python strings and the character classes of the patterns\<close>

text \<open>
  A Python \<open>str\<close> is a sequence of Unicode code points, so a message is a list of
  code points. ASCII literals are written as Isabelle strings and converted by \<open>asc\<close>.
\<close>

type_synonym pystr = "nat list"

definition asc :: "string \<Rightarrow> pystr" where
  "asc cs = map of_char cs"

text \<open>
  The tables of the Unicode character database are not part of the repository. The
  classification of the code points from 128 on is a parameter: \<open>uc_alnum\<close> is
  \<open>str.isalnum\<close>, \<open>uc_decimal\<close> the decimal digit value of a code point of
  category Nd, \<open>uc_lower\<close> the lower-case mapping. The ASCII range is fixed below.
  The one rule of \<open>str.lower\<close> that looks at the context, for the Greek final sigma,
  chooses between two letters beyond ASCII and is not modelled.
\<close>

record ucd =
  uc_alnum :: "nat \<Rightarrow> bool"
  uc_decimal :: "nat \<Rightarrow> nat option"
  uc_lower :: "nat \<Rightarrow> pystr"

definition is_digit :: "ucd \<Rightarrow> nat \<Rightarrow> bool" where
  "is_digit U c = (if c < 128 then 48 \<le> c \<and> c \<le> 57 else uc_decimal U c \<noteq> None)"

definition is_word :: "ucd \<Rightarrow> nat \<Rightarrow> bool" where
  "is_word U c =
     (if c < 128
      then (48 \<le> c \<and> c \<le> 57) \<or> (65 \<le> c \<and> c \<le> 90) \<or> c = 95 \<or> (97 \<le> c \<and> c \<le> 122)
      else uc_alnum U c)"

text \<open>The white space of \<open>\s\<close> and of \<open>str.strip\<close>: a fixed, finite set of code points.\<close>

definition is_space :: "nat \<Rightarrow> bool" where
  "is_space c =
     ((9 \<le> c \<and> c \<le> 13) \<or> (28 \<le> c \<and> c \<le> 32) \<or> c = 133 \<or> c = 160 \<or> c = 5760
      \<or> (8192 \<le> c \<and> c \<le> 8202) \<or> c = 8232 \<or> c = 8233 \<or> c = 8239 \<or> c = 8287
      \<or> c = 12288)"

definition newline :: nat where
  "newline = 10"

definition strip :: "pystr \<Rightarrow> pystr" where
  "strip s = rev (dropWhile is_space (rev (dropWhile is_space s)))"

definition lower :: "ucd \<Rightarrow> pystr \<Rightarrow> pystr" where
  "lower U s =
     concat (map (\<lambda>c. if c < 128 then [if 65 \<le> c \<and> c \<le> 90 then c + 32 else c]
                        else uc_lower U c) s)"

fun startswith :: "pystr \<Rightarrow> pystr \<Rightarrow> bool" where
  "startswith [] s = True"
| "startswith (p # ps) [] = False"
| "startswith (p # ps) (c # cs) = (p = c \<and> startswith ps cs)"

text \<open>\<open>kw in s\<close> for strings: \<open>kw\<close> occurs in \<open>s\<close> as a contiguous substring.\<close>

fun contains :: "pystr \<Rightarrow> pystr \<Rightarrow> bool" where
  "contains kw [] = (kw = [])"
| "contains kw (c # cs) = (startswith kw (c # cs) \<or> contains kw cs)"

section \<open>Regular expressions as backtracking matchers\<close>

text \<open>
  Each pattern of the source is written with the combinators below, one combinator for
  each construct it uses. A matcher takes the text that is left and returns the groups,
  or \<open>None\<close>; the continuation argument is the rest of the pattern, so that a failure
  further right makes a repetition try its next length, as the backtracking matcher of
  \<open>re\<close> does.
\<close>

definition lit :: "pystr \<Rightarrow> (pystr \<Rightarrow> 'a option) \<Rightarrow> pystr \<Rightarrow> 'a option" where
  "lit p k s = (if startswith p s then k (drop (length p) s) else None)"

text \<open>
  A greedy repetition of a character class: the longest run first, then shorter ones,
  never fewer than \<open>lo\<close> characters. The continuation gets the text matched and the
  rest.
\<close>

fun try_down :: "(pystr \<Rightarrow> pystr \<Rightarrow> 'a option) \<Rightarrow> pystr \<Rightarrow> nat \<Rightarrow> nat \<Rightarrow> 'a option" where
  "try_down k s lo 0 = (if lo = 0 then k [] s else None)"
| "try_down k s lo (Suc n) =
     (if Suc n < lo then None
      else (case k (take (Suc n) s) (drop (Suc n) s) of
              Some r \<Rightarrow> Some r
            | None \<Rightarrow> try_down k s lo n))"

definition greedy :: "(nat \<Rightarrow> bool) \<Rightarrow> nat \<Rightarrow> (pystr \<Rightarrow> pystr \<Rightarrow> 'a option) \<Rightarrow> pystr \<Rightarrow> 'a option" where
  "greedy P lo k s = try_down k s lo (length (takeWhile P s))"

text \<open>
  The lazy group \<open>(.+?)\<close>: one character that is not a newline, then the shortest
  extension after which the rest of the pattern matches.
\<close>

fun lazy_dots :: "(pystr \<Rightarrow> pystr \<Rightarrow> 'a option) \<Rightarrow> pystr \<Rightarrow> pystr \<Rightarrow> 'a option" where
  "lazy_dots k acc [] = None"
| "lazy_dots k acc (c # cs) =
     (if c = newline then None
      else (case k (acc @ [c]) cs of
              Some r \<Rightarrow> Some r
            | None \<Rightarrow> lazy_dots k (acc @ [c]) cs))"

definition alt :: "(pystr \<Rightarrow> 'a option) \<Rightarrow> (pystr \<Rightarrow> 'a option) \<Rightarrow> pystr \<Rightarrow> 'a option" where
  "alt m1 m2 s = (case m1 s of Some r \<Rightarrow> Some r | None \<Rightarrow> m2 s)"

text \<open>\<open>re.search\<close>: the match at the leftmost position where the pattern matches.\<close>

fun search :: "(pystr \<Rightarrow> 'a option) \<Rightarrow> pystr \<Rightarrow> 'a option" where
  "search m [] = m []"
| "search m (c # cs) = (case m (c # cs) of Some r \<Rightarrow> Some r | None \<Rightarrow> search m cs)"

text \<open>\<^verbatim>\<open>Processing task: (\w+)\<close>\<close>

definition re_task :: "ucd \<Rightarrow> pystr \<Rightarrow> pystr option" where
  "re_task U = lit (asc ''Processing task: '') (greedy (is_word U) 1 (\<lambda>g rest. Some g))"

text \<open>\<^verbatim>\<open>batch_file\[(\w+)\]: Starting\<close>\<close>

definition re_batch :: "ucd \<Rightarrow> pystr \<Rightarrow> pystr option" where
  "re_batch U =
     lit (asc ''batch_file['') (greedy (is_word U) 1 (\<lambda>g. lit (asc '']: Starting'') (\<lambda>rest. Some g)))"

text \<open>\<^verbatim>\<open>file\[(.+?)\]: Starting file download\<close>\<close>

definition re_file_start :: "pystr \<Rightarrow> pystr option" where
  "re_file_start =
     lit (asc ''file['') (lazy_dots (\<lambda>g. lit (asc '']: Starting file download'') (\<lambda>rest. Some g)) [])"

text \<open>\<^verbatim>\<open>Progress update: (.+?), (\d+)/(\d+)\<close>\<close>

definition re_progress :: "ucd \<Rightarrow> pystr \<Rightarrow> (pystr \<times> pystr \<times> pystr) option" where
  "re_progress U =
     lit (asc ''Progress update: '')
       (lazy_dots (\<lambda>g1. lit (asc '', '')
          (greedy (is_digit U) 1 (\<lambda>g2. lit (asc ''/'')
             (greedy (is_digit U) 1 (\<lambda>g3 rest. Some (g1, g2, g3)))))) [])"

text \<open>\<^verbatim>\<open>file\[(.+?)\].*(?:downloaded successfully|completed)\<close>\<close>

definition re_complete :: "pystr \<Rightarrow> pystr option" where
  "re_complete =
     lit (asc ''file['')
       (lazy_dots (\<lambda>g. lit (asc '']'')
          (greedy (\<lambda>c. c \<noteq> newline) 0
             (\<lambda>skipped. alt (lit (asc ''downloaded successfully'') (\<lambda>rest. Some g))
                             (lit (asc ''completed'') (\<lambda>rest. Some g))))) [])"

text \<open>\<^verbatim>\<open>file\s*\[(.+?)\]\<close>\<close>

definition re_error :: "pystr \<Rightarrow> pystr option" where
  "re_error =
     lit (asc ''file'')
       (greedy is_space 0 (\<lambda>spaces. lit (asc ''['')
          (lazy_dots (\<lambda>g. lit (asc '']'') (\<lambda>rest. Some g)) [])))"

section \<open>Numbers\<close>

text \<open>
  The errors that the builtins used by \<open>parse_download_task\<close> can raise.
\<close>

datatype py_error = ValueError | OverflowError | ZeroDivisionError

definition digit_value :: "ucd \<Rightarrow> nat \<Rightarrow> nat option" where
  "digit_value U c =
     (if c < 128 then (if 48 \<le> c \<and> c \<le> 57 then Some (c - 48) else None) else uc_decimal U c)"

fun int_of_digits :: "ucd \<Rightarrow> int \<Rightarrow> pystr \<Rightarrow> int option" where
  "int_of_digits U acc [] = Some acc"
| "int_of_digits U acc (c # cs) =
     (case digit_value U c of
        None \<Rightarrow> None
      | Some v \<Rightarrow> int_of_digits U (acc * 10 + int v) cs)"

text \<open>
  \<open>int(s)\<close> on the text of a group \<open>(\d+)\<close>. CPython refuses a decimal string of more
  than \<open>sys.get_int_max_str_digits()\<close> digits with a ValueError; the limit is a
  setting of the interpreter (4300 by default, 0 for none).
\<close>

definition py_int :: "ucd \<Rightarrow> nat \<Rightarrow> pystr \<Rightarrow> py_error + int" where
  "py_int U max_str_digits s =
     (if s = [] then Inl ValueError
      else if 0 < max_str_digits \<and> max_str_digits < length s then Inl ValueError
      else (case int_of_digits U 0 s of None \<Rightarrow> Inl ValueError | Some n \<Rightarrow> Inr n))"

text \<open>
  A float is an IEEE double: a rational number, or plus or minus infinity. (The
  operations below, on ints and finite doubles, never give a NaN.) The ints 0 and 100
  that the source stores in the field \<open>progress\<close> are the same numbers.
\<close>

datatype pyfloat = Fin rat | PInf | NInf

instantiation pyfloat :: ord
begin

fun less_eq_pyfloat :: "pyfloat \<Rightarrow> pyfloat \<Rightarrow> bool" where
  "less_eq_pyfloat NInf y = True"
| "less_eq_pyfloat x PInf = True"
| "less_eq_pyfloat (Fin a) (Fin b) = (a \<le> b)"
| "less_eq_pyfloat x y = False"

definition less_pyfloat :: "pyfloat \<Rightarrow> pyfloat \<Rightarrow> bool" where
  "less_pyfloat x y = (x \<le> y \<and> \<not> y \<le> x)"

instance ..

end

text \<open>\<open>round_half_even\<close>: the nearest integer, a tie to the even one.\<close>

definition round_half_even :: "rat \<Rightarrow> int" where
  "round_half_even q =
     (let n = \<lfloor>q\<rfloor>; r = q - of_int n
      in if r < 1 / 2 then n else if 1 / 2 < r then n + 1 else if even n then n else n + 1)"

text \<open>
  The double nearest to a rational \<open>x\<close>, a tie to the even mantissa: \<open>x\<close> is rounded
  to a multiple of \<open>2 ^ p\<close>, where \<open>p\<close> is the least exponent from -1074 on (the
  subnormal numbers) for which the mantissa stays below \<open>2 ^ 53\<close>. The search for \<open>p\<close>
  starts at 0 and walks down for \<open>x < 2 ^ 53\<close>, up otherwise; 971 is the exponent of
  the largest doubles.
\<close>

definition pow2 :: "int \<Rightarrow> rat" where
  "pow2 p = (if 0 \<le> p then 2 ^ nat p else 1 / 2 ^ nat (- p))"

function exp_down :: "rat \<Rightarrow> int \<Rightarrow> int" where
  "exp_down x p = (if - 1074 < p \<and> x < pow2 (p + 52) then exp_down x (p - 1) else p)"
  by pat_completeness auto
termination
  by (relation "measure (\<lambda>(x, p). nat (p + 1074))") auto

function exp_up :: "rat \<Rightarrow> int \<Rightarrow> int" where
  "exp_up x p = (if p < 971 \<and> pow2 (p + 53) \<le> x then exp_up x (p + 1) else p)"
  by pat_completeness auto
termination
  by (relation "measure (\<lambda>(x, p). nat (971 - p))") auto

declare exp_down.simps [simp del] exp_up.simps [simp del]

definition ulp_exp :: "rat \<Rightarrow> int" where
  "ulp_exp x = (if x < pow2 53 then exp_down x 0 else exp_up x 0)"

definition to_double :: "rat \<Rightarrow> rat" where
  "to_double x =
     (if x = 0 then 0
      else sgn x * of_int (round_half_even (\<bar>x\<bar> / pow2 (ulp_exp \<bar>x\<bar>))) * pow2 (ulp_exp \<bar>x\<bar>))"

text \<open>
  A real number rounds to a double beyond the largest finite one from
  \<open>2^1024 - 2^970\<close> on. \<open>a / b\<close> on two ints is the double nearest to the quotient,
  and raises OverflowError when there is none; the product of two floats is the double
  nearest to the product, and infinity when there is none.
\<close>

definition float_overflow :: rat where
  "float_overflow = 2 ^ 1024 - 2 ^ 970"

definition true_div :: "int \<Rightarrow> int \<Rightarrow> py_error + rat" where
  "true_div a b =
     (if b = 0 then Inl ZeroDivisionError
      else if float_overflow \<le> \<bar>of_int a / of_int b\<bar> then Inl OverflowError
      else Inr (to_double (of_int a / of_int b)))"

definition float_mul :: "rat \<Rightarrow> rat \<Rightarrow> pyfloat" where
  "float_mul x y =
     (if float_overflow \<le> \<bar>x * y\<bar> then (if 0 < x * y then PInf else NInf)
      else Fin (to_double (x * y)))"

text \<open>
  \<open>round(x, 1)\<close>: the decimal with one digit after the point that is nearest to the
  double \<open>x\<close>, a tie to the even digit, and then the double nearest to that decimal;
  infinity stays infinity.
\<close>

fun py_round1 :: "pyfloat \<Rightarrow> pyfloat" where
  "py_round1 PInf = PInf"
| "py_round1 NInf = NInf"
| "py_round1 (Fin x) = Fin (to_double (of_int (round_half_even (x * 10)) / 10))"

section \<open>Tasks and the registry\<close>

text \<open>
  The status tokens of the source, in the order of the life cycle:
  \<open>Queued\<close> is the token for "queued", \<open>Initializing\<close> for "initialising",
  \<open>Started\<close> for "download started", \<open>Downloading\<close> for "downloading",
  \<open>Completed\<close>, \<open>Cancelled\<close> and \<open>Failed\<close> for the three outcomes.
\<close>

datatype status = Queued | Initializing | Started | Downloading | Completed | Cancelled | Failed

record task =
  task_id :: pystr
  filename :: pystr
  downloaded :: int
  total :: int
  progress :: pyfloat
  status :: status
  start_time :: pystr

text \<open>
  \<open>download_tasks\<close> is a dict, which keeps its keys in insertion order: an association
  list, where assignment to a key (\<open>AList.update\<close>) replaces the value in place or
  appends a new entry, assignment to a field of an entry is \<open>AList.map_entry\<close> and
  \<open>del\<close> is \<open>AList.delete\<close>.
\<close>

type_synonym registry = "(pystr \<times> task) list"

definition has_key :: "registry \<Rightarrow> pystr \<Rightarrow> bool" where
  "has_key reg tid = (map_of reg tid \<noteq> None)"

text \<open>The sentinel filename of a task whose file is not known yet.\<close>

definition placeholder :: pystr where
  "placeholder = [31561, 24453, 35299, 26512, 46, 46, 46]"

text \<open>
  What the clock and the random generator return during one call: the formatted
  \<open>datetime.now()\<close>, the 32 hexadecimal digits of \<open>uuid.uuid4().hex\<close>; and the
  interpreter's limit on the digits of an int.
\<close>

record env =
  now :: pystr
  uuid4_hex :: pystr
  max_str_digits :: nat

text \<open>
  The loops of the form \<open>for tid in download_tasks: if P: ...; break\<close> act on the first
  entry, in iteration order, whose task satisfies \<open>P\<close>.
\<close>

fun first_tid :: "(task \<Rightarrow> bool) \<Rightarrow> registry \<Rightarrow> pystr option" where
  "first_tid P [] = None"
| "first_tid P ((tid, t) # r) = (if P t then Some tid else first_tid P r)"

definition holds_placeholder :: "task \<Rightarrow> bool" where
  "holds_placeholder t = (filename t = placeholder \<or> filename t = [])"

definition new_task :: "pystr \<Rightarrow> pystr \<Rightarrow> status \<Rightarrow> pystr \<Rightarrow> task" where
  "new_task tid fn st tm =
     \<lparr>task_id = tid, filename = fn, downloaded = 0, total = 0, progress = Fin 0, status = st,
      start_time = tm\<rparr>"

definition terminal :: "status list" where
  "terminal = [Completed, Cancelled, Failed]"

section \<open>parse_download_task\<close>

text \<open>\<open>(downloaded / total * 100) if total > 0 else 0\<close>, or the error of the division.\<close>

definition raw_progress :: "int \<Rightarrow> int \<Rightarrow> py_error + pyfloat" where
  "raw_progress d t =
     (if 0 < t then map_sum id (\<lambda>q. float_mul q 100) (true_div d t) else Inr (Fin 0))"

definition set_progress :: "int \<Rightarrow> int \<Rightarrow> pyfloat \<Rightarrow> task \<Rightarrow> task" where
  "set_progress d t p task =
     task\<lparr>downloaded := d, total := t, progress := py_round1 p, status := Downloading\<rparr>"

text \<open>Step 4 of the source, after the pattern has matched: the three groups.\<close>

definition apply_progress ::
  "ucd \<Rightarrow> env \<Rightarrow> registry \<Rightarrow> pystr \<times> pystr \<times> pystr \<Rightarrow> py_error + registry" where
  "apply_progress U e reg groups =
     (case groups of (g1, g2, g3) \<Rightarrow>
        let identifier = strip g1 in
        (case py_int U (max_str_digits e) g2 of
           Inl err \<Rightarrow> Inl err
         | Inr d \<Rightarrow>
        (case py_int U (max_str_digits e) g3 of
           Inl err \<Rightarrow> Inl err
         | Inr t \<Rightarrow>
        (case raw_progress d t of
           Inl err \<Rightarrow> Inl err
         | Inr p \<Rightarrow>
             Inr (if has_key reg identifier
                  then AList.map_entry identifier (set_progress d t p) reg
                  else (case first_tid (\<lambda>task. filename task = identifier) reg of
                          Some tid \<Rightarrow> AList.map_entry tid (set_progress d t p) reg
                        | None \<Rightarrow> reg))))))"

text \<open>Step 3 of the source, after the pattern has matched: the filename.\<close>

definition file_start :: "env \<Rightarrow> registry \<Rightarrow> pystr \<Rightarrow> registry" where
  "file_start e reg fn =
     (if first_tid (\<lambda>task. filename task = fn) reg \<noteq> None then reg
      else (case first_tid holds_placeholder reg of
              Some tid \<Rightarrow> AList.map_entry tid (\<lambda>task. task\<lparr>filename := fn, status := Started\<rparr>) reg
            | None \<Rightarrow>
                (let new_id = asc ''auto_'' @ take 8 (uuid4_hex e)
                 in AList.update new_id (new_task new_id fn Started (now e)) reg)))"

text \<open>Step 5 of the source: the outcome of the file named by the line.\<close>

definition finish :: "registry \<Rightarrow> pystr \<Rightarrow> (task \<Rightarrow> task) \<Rightarrow> registry" where
  "finish reg fn f =
     (case first_tid (\<lambda>task. filename task = fn) reg of
        Some tid \<Rightarrow> AList.map_entry tid f reg
      | None \<Rightarrow> reg)"

definition completion_keyword :: "ucd \<Rightarrow> pystr \<Rightarrow> bool" where
  "completion_keyword U message =
     (contains (asc ''downloaded successfully'') message
      \<or> contains (asc ''upload completed'') message
      \<or> contains (asc ''completed'') (lower U message))"

definition failure_keyword :: "ucd \<Rightarrow> pystr \<Rightarrow> bool" where
  "failure_keyword U message =
     list_ex (\<lambda>kw. contains kw (lower U message))
       [asc ''failed'', asc ''error'', asc ''canceled'', asc ''cancelled'']"

definition is_canceled :: "ucd \<Rightarrow> pystr \<Rightarrow> bool" where
  "is_canceled U message =
     list_ex (\<lambda>kw. contains kw (lower U message))
       [asc ''canceled'', asc ''cancelled'', asc ''context canceled'']"

text \<open>
  The body of the \<open>try\<close> block: the first pattern that matches decides, in the order
  of the source, and each step ends with \<open>return\<close>. The calls that redraw the task list
  (\<open>update_tasks_ui\<close>) and that start the removal timer (\<open>root.after\<close>) do not write
  \<open>download_tasks\<close> and are left out.
\<close>

definition parse_body :: "ucd \<Rightarrow> env \<Rightarrow> registry \<Rightarrow> pystr \<Rightarrow> py_error + registry" where
  "parse_body U e reg message =
     (case search (re_task U) message of
        Some tid \<Rightarrow>
          Inr (if has_key reg tid then reg
               else AList.update tid (new_task tid placeholder Queued (now e)) reg)
      | None \<Rightarrow>
     (case search (re_batch U) message of
        Some tid \<Rightarrow>
          Inr (if has_key reg tid
               then AList.map_entry tid (\<lambda>task. task\<lparr>status := Initializing\<rparr>) reg
               else reg)
      | None \<Rightarrow>
     (case search re_file_start message of
        Some fn \<Rightarrow> Inr (file_start e reg fn)
      | None \<Rightarrow>
     (case search (re_progress U) message of
        Some groups \<Rightarrow> apply_progress U e reg groups
      | None \<Rightarrow>
     (if completion_keyword U message
      then (case search re_complete message of
              Some fn \<Rightarrow>
                Inr (finish reg fn (\<lambda>task. task\<lparr>status := Completed, progress := Fin 100\<rparr>))
            | None \<Rightarrow> Inr reg)
      else if failure_keyword U message
      then (case search re_error message of
              Some fn \<Rightarrow>
                Inr (finish reg fn
                       (\<lambda>task. task\<lparr>status := if is_canceled U message then Cancelled else Failed\<rparr>))
            | None \<Rightarrow> Inr reg)
      else Inr reg)))))"

text \<open>\<open>except Exception: pass\<close>: an error leaves the registry as it is.\<close>

definition parse_download_task :: "ucd \<Rightarrow> env \<Rightarrow> registry \<Rightarrow> pystr \<Rightarrow> registry" where
  "parse_download_task U e reg message =
     (case parse_body U e reg message of Inl err \<Rightarrow> reg | Inr reg' \<Rightarrow> reg')"

section \<open>Removing tasks\<close>

definition to_remove :: "pystr \<Rightarrow> registry \<Rightarrow> pystr list" where
  "to_remove clear_type reg =
     map fst (filter (\<lambda>(tid, task).
        (clear_type = asc ''completed'' \<and> status task \<in> set terminal) \<or> clear_type = asc ''all'') reg)"

text \<open>
  \<open>clear_tasks\<close> of the HTTP handler, from the \<open>type\<close> of the request on (\<open>completed\<close>
  when the request has none): the registry left and the count reported as \<open>cleared\<close>.
\<close>

definition clear_tasks :: "pystr \<Rightarrow> registry \<Rightarrow> registry \<times> nat" where
  "clear_tasks clear_type reg =
     (fold AList.delete (to_remove clear_type reg) reg, length (to_remove clear_type reg))"

definition clear_finished_tasks :: "registry \<Rightarrow> registry" where
  "clear_finished_tasks reg =
     fold AList.delete (map fst (filter (\<lambda>(tid, t). status t \<in> set terminal) reg)) reg"

definition remove_finished_task :: "pystr \<Rightarrow> registry \<Rightarrow> registry" where
  "remove_finished_task tid reg = (if has_key reg tid then AList.delete tid reg else reg)"

text \<open>
  The states of the registry that a run can reach from the empty dict. The timer that
  removes a finished task is not modelled: a removal may happen at any moment, for any
  id, which covers every moment the timer can fire.
\<close>

inductive reachable :: "ucd \<Rightarrow> registry \<Rightarrow> bool" for U :: ucd where
  reach_init: "reachable U []"
| reach_parse: "reachable U reg \<Longrightarrow> reachable U (parse_download_task U e reg message)"
| reach_clear: "reachable U reg \<Longrightarrow> reachable U (fst (clear_tasks clear_type reg))"
| reach_clear_finished: "reachable U reg \<Longrightarrow> reachable U (clear_finished_tasks reg)"
| reach_remove: "reachable U reg \<Longrightarrow> reachable U (remove_finished_task tid reg)"

section \<open>The properties of the registry\<close>

text \<open>
  The progress of a task as the specification states it: \<open>downloaded / total * 100\<close>
  rounded to one decimal place, and 0 when \<open>total\<close> is 0; the value of the Python
  expression \<open>round(downloaded / total * 100, 1)\<close>, or the error that it raises.
\<close>

definition spec_progress :: "int \<Rightarrow> int \<Rightarrow> py_error + pyfloat" where
  "spec_progress d t =
     (if 0 < t then map_sum id (\<lambda>q. py_round1 (float_mul q 100)) (true_div d t)
      else Inr (Fin 0))"

text \<open>
  What holds of every entry of a registry that a run can reach: the key is the id of
  the task, the filename is not empty, the byte counts are not negative, and the
  progress is the value of the formula unless a completion line has set it to 100.
\<close>

definition task_ok :: "pystr \<Rightarrow> task \<Rightarrow> bool" where
  "task_ok k t =
     (task_id t = k \<and> filename t \<noteq> [] \<and> 0 \<le> downloaded t \<and> 0 \<le> total t
      \<and> (spec_progress (downloaded t) (total t) = Inr (progress t) \<or> progress t = Fin 100)
      \<and> (status t = Queued \<or> status t = Downloading
           \<longrightarrow> spec_progress (downloaded t) (total t) = Inr (progress t)))"

definition reg_inv :: "registry \<Rightarrow> bool" where
  "reg_inv reg = (distinct (map fst reg) \<and> (\<forall>(k, t) \<in> set reg. task_ok k t))"

text \<open>
  A line names the task \<open>t\<close> stored under the key \<open>k\<close> when the step of
  \<open>parse_download_task\<close> that handles the line can reach that task: step 2 by its id;
  step 3 when the task holds the placeholder or the generated id is \<open>k\<close>; step 4 by its
  id or its filename; step 5 by its filename. A discovery line names no existing task.
\<close>

definition names_task :: "ucd \<Rightarrow> env \<Rightarrow> pystr \<Rightarrow> pystr \<Rightarrow> task \<Rightarrow> bool" where
  "names_task U e message k t =
     (case search (re_task U) message of
        Some tid \<Rightarrow> False
      | None \<Rightarrow>
     (case search (re_batch U) message of
        Some tid \<Rightarrow> tid = k
      | None \<Rightarrow>
     (case search re_file_start message of
        Some fn \<Rightarrow> holds_placeholder t \<or> asc ''auto_'' @ take 8 (uuid4_hex e) = k
      | None \<Rightarrow>
     (case search (re_progress U) message of
        Some (g1, g2, g3) \<Rightarrow> strip g1 = k \<or> strip g1 = filename t
      | None \<Rightarrow>
     (if completion_keyword U message then search re_complete message = Some (filename t)
      else if failure_keyword U message then search re_error message = Some (filename t)
      else False)))))"

section \<open>The rate sampler\<close>

text \<open>
  Modelled from the spec: the rate sampler. In the source \<open>start_monitoring\<close> is an
  empty placeholder; only the fields of the sampler are declared, in \<open>__init__\<close>
  (\<open>last_net_io\<close>, \<open>last_net_time\<close>, \<open>proc_last_io\<close>, \<open>proc_last_time\<close> and
  \<open>net_history\<close>, a deque of at most 60 values). The operation below follows section
  4.3 of the specification, its three cases in the order in which they are written.
  Timestamps and speeds are exact rationals.
\<close>

record stream =
  previous :: "(int \<times> rat) option"
  speed :: rat
  history :: "rat list"
  cumulative :: int

definition no_sample :: stream where
  "no_sample = \<lparr>previous = None, speed = 0, history = [], cumulative = 0\<rparr>"

definition capacity :: nat where
  "capacity = 60"

definition push_history :: "rat \<Rightarrow> rat list \<Rightarrow> rat list" where
  "push_history v h = (if capacity \<le> length h then tl h @ [v] else h @ [v])"

definition sample_stream :: "int \<Rightarrow> rat \<Rightarrow> stream \<Rightarrow> rat \<times> stream" where
  "sample_stream counterValue timestamp st =
     (case previous st of
        None \<Rightarrow> (0, st\<lparr>previous := Some (counterValue, timestamp), speed := 0\<rparr>)
      | Some (prevValue, prevTime) \<Rightarrow>
          (let deltaBytes = counterValue - prevValue; deltaTime = timestamp - prevTime
           in if deltaTime \<le> 0 then (speed st, st)
              else if deltaBytes < 0
              then (0, st\<lparr>previous := Some (counterValue, timestamp), speed := 0\<rparr>)
              else (of_int deltaBytes / deltaTime,
                    st\<lparr>previous := Some (counterValue, timestamp),
                       speed := of_int deltaBytes / deltaTime,
                       history := push_history (of_int deltaBytes / deltaTime) (history st),
                       cumulative := cumulative st + deltaBytes\<rparr>)))"

text \<open>The sampler keeps one stream for each stream key.\<close>

definition sample :: "('k \<Rightarrow> stream) \<Rightarrow> 'k \<Rightarrow> int \<Rightarrow> rat \<Rightarrow> rat \<times> ('k \<Rightarrow> stream)" where
  "sample S streamKey counterValue timestamp =
     (case sample_stream counterValue timestamp (S streamKey) of
        (v, st) \<Rightarrow> (v, S(streamKey := st)))"

text \<open>The sampler after the readings 100 at time 1 and 200 at time 2 of one stream.\<close>

definition two_samples :: "string \<Rightarrow> stream" where
  "two_samples = snd (sample (snd (sample (\<lambda>k. no_sample) ''proc'' 100 1)) ''proc'' 200 2)"

section \<open>Concrete inputs\<close>

text \<open>
  A character database that knows no letter or digit beyond ASCII, and one state of the
  clock and of the random generator, for the examples.
\<close>

definition ascii_ucd :: ucd where
  "ascii_ucd = \<lparr>uc_alnum = (\<lambda>c. False), uc_decimal = (\<lambda>c. None), uc_lower = (\<lambda>c. [c])\<rparr>"

definition env0 :: env where
  "env0 = \<lparr>now = asc ''2025-01-01 00:00:00'',
            uuid4_hex = asc ''0123456789abcdef0123456789abcdef'',
            max_str_digits = 4300\<rparr>"

text \<open>An entry of the registry whose task was created at the time of \<open>env0\<close>.\<close>

definition entry :: "string \<Rightarrow> pystr \<Rightarrow> int \<Rightarrow> int \<Rightarrow> rat \<Rightarrow> status \<Rightarrow> pystr \<times> task" where
  "entry k fn d t p s =
     (asc k, \<lparr>task_id = asc k, filename = fn, downloaded = d, total = t, progress = Fin p,
              status = s, start_time = now env0\<rparr>)"

text \<open>
  A progress line for the task \<open>T1\<close> whose first number has 309 digits, 2 followed by
  308 zeros, and whose second number is 1.
\<close>

definition zeros77 :: string where
  "zeros77 = ''00000000000000000000000000000000000000000000000000000000000000000000000000000''"

definition huge_digits :: string where
  "huge_digits = ''2'' @ zeros77 @ zeros77 @ zeros77 @ zeros77"

definition huge_progress_line :: string where
  "huge_progress_line = ''Progress update: T1, '' @ huge_digits @ ''/1''"

text \<open>The registry after a sequence of log lines, from the empty registry.\<close>

definition run :: "string list \<Rightarrow> registry" where
  "run ls = fold (\<lambda>l reg. parse_download_task ascii_ucd env0 reg (asc l)) ls []"

section \<open>Evaluation on concrete inputs\<close>

lemma floor_rat_numeral_div:
  "\<lfloor>(numeral a :: rat) / numeral b\<rfloor> = numeral a div numeral b"
  by (metis floor_divide_of_int_eq of_int_numeral)

lemma floor_rat_one_div: "\<lfloor>(1 :: rat) / numeral b\<rfloor> = 1 div numeral b"
  by (metis floor_divide_of_int_eq of_int_numeral of_int_1)

lemmas float_defs = spec_progress_def raw_progress_def true_div_def float_mul_def to_double_def ulp_exp_def
  exp_down.simps exp_up.simps pow2_def round_half_even_def float_overflow_def Let_def
  floor_rat_numeral_div floor_rat_one_div

lemmas re_defs = re_task_def re_batch_def re_file_start_def re_progress_def re_complete_def
  re_error_def lit_def greedy_def alt_def asc_def is_word_def is_digit_def is_space_def
  newline_def ascii_ucd_def

lemmas parse_defs = parse_download_task_def parse_body_def has_key_def file_start_def
  apply_progress_def finish_def completion_keyword_def failure_keyword_def is_canceled_def
  lower_def strip_def holds_placeholder_def placeholder_def new_task_def set_progress_def
  py_int_def digit_value_def float_defs env0_def entry_def

lemma run_progress_half:
  "run [''Processing task: T1'', ''file[a.mp4]: Starting file download'',
        ''Progress update: a.mp4, 50/100'']
   = [entry ''T1'' (asc ''a.mp4'') 50 100 50 Downloading]"
  by (simp add: run_def re_defs parse_defs Let_def)

lemma run_progress_23_80:
  "run [''Processing task: T1'', ''file[a.mp4]: Starting file download'',
        ''Progress update: a.mp4, 23/80'']
   = [entry ''T1'' (asc ''a.mp4'') 23 80 (8078331831595827 / 2 ^ 48) Downloading]"
  by (simp add: run_def re_defs parse_defs)

lemma run_progress_completed:
  "run [''Processing task: T1'', ''file[a.mp4]: Starting file download'',
        ''Progress update: a.mp4, 50/100'', ''file[a.mp4]: downloaded successfully'']
   = [entry ''T1'' (asc ''a.mp4'') 50 100 100 Completed]"
  by (simp add: run_def re_defs parse_defs Let_def)

lemma run_progress_over:
  "run [''Processing task: T1'', ''Progress update: T1, 200/100'']
   = [entry ''T1'' placeholder 200 100 200 Downloading]"
  by (simp add: run_def re_defs parse_defs Let_def)

lemma spec_progress_50_100: "spec_progress 50 100 = Inr (Fin 50)"
  by (simp add: float_defs)

lemma spec_progress_23_80: "spec_progress 23 80 = Inr (Fin (8078331831595827 / 2 ^ 48))"
  by (simp add: float_defs)

lemma spec_progress_infinite: "spec_progress (10 ^ 307) 1 = Inr PInf"
  by (simp add: float_defs)

lemma spec_progress_1_2000: "spec_progress 1 2000 = Inr (Fin (3602879701896397 / 2 ^ 55))"
  by (simp add: float_defs)

lemma line_y_start:
  "search (re_task ascii_ucd) (asc ''file[y.mp4]: Starting file download'') = None"
  "search (re_batch ascii_ucd) (asc ''file[y.mp4]: Starting file download'') = None"
  "search re_file_start (asc ''file[y.mp4]: Starting file download'') = Some (asc ''y.mp4'')"
  by (simp_all add: re_defs)

lemma run_two_queued_x:
  "run [''Processing task: T1'', ''Processing task: T2'', ''file[x.mp4]: Starting file download'']
   = [entry ''T1'' (asc ''x.mp4'') 0 0 0 Started, entry ''T2'' placeholder 0 0 0 Queued]"
  by (simp add: run_def re_defs parse_defs)

lemmas huge_defs = huge_progress_line_def huge_digits_def zeros77_def

lemma huge_line_searches:
  "search (re_task ascii_ucd) (asc huge_progress_line) = None"
  "search (re_batch ascii_ucd) (asc huge_progress_line) = None"
  "search re_file_start (asc huge_progress_line) = None"
  "search (re_progress ascii_ucd) (asc huge_progress_line)
     = Some (asc ''T1'', asc huge_digits, asc ''1'')"
  by (simp_all add: huge_defs re_defs)

lemma huge_digits_value: "py_int ascii_ucd 4300 (asc huge_digits) = Inr (2 * 10 ^ 308)"
  by (simp add: huge_defs py_int_def asc_def digit_value_def)

lemma one_value: "py_int ascii_ucd 4300 (asc ''1'') = Inr 1"
  by (simp add: py_int_def asc_def digit_value_def)

lemma huge_quotient: "true_div (2 * 10 ^ 308) 1 = Inl OverflowError"
  by (simp add: true_div_def float_overflow_def)

lemma run_one_queued:
  "run [''Processing task: T1''] = [entry ''T1'' placeholder 0 0 0 Queued]"
  by (simp add: run_def re_defs parse_defs)

lemma huge_line_dropped:
  "parse_download_task ascii_ucd env0 reg (asc huge_progress_line) = reg"
proof -
  have "apply_progress ascii_ucd env0 reg (asc ''T1'', asc huge_digits, asc ''1'') = Inl OverflowError"
    using huge_digits_value one_value huge_quotient
    by (simp add: apply_progress_def raw_progress_def env0_def Let_def)
  then show ?thesis
    by (simp add: parse_download_task_def parse_body_def huge_line_searches)
qed

lemma line_name_is_discovery:
  "search re_file_start (asc ''file[Processing task: x]: Starting file download'')
     = Some (asc ''Processing task: x'')"
  "parse_download_task ascii_ucd env0 [entry ''T1'' placeholder 0 0 0 Queued]
     (asc ''file[Processing task: x]: Starting file download'')
   = [entry ''T1'' placeholder 0 0 0 Queued, entry ''x'' placeholder 0 0 0 Queued]"
  by (simp_all add: re_defs parse_defs)

lemma line_progress_a:
  "search (re_task ascii_ucd) (asc ''Progress update: a.mp4, 23/80'') = None"
  "search (re_batch ascii_ucd) (asc ''Progress update: a.mp4, 23/80'') = None"
  "search re_file_start (asc ''Progress update: a.mp4, 23/80'') = None"
  "search (re_progress ascii_ucd) (asc ''Progress update: a.mp4, 23/80'')
     = Some (asc ''a.mp4'', asc ''23'', asc ''80'')"
  by (simp_all add: re_defs)

lemma run_started:
  "run [''Processing task: T1'', ''file[a.mp4]: Starting file download'']
   = [entry ''T1'' (asc ''a.mp4'') 0 0 0 Started]"
  by (simp add: run_def re_defs parse_defs)

lemma completed_then_progress:
  "parse_download_task ascii_ucd env0 [entry ''T1'' (asc ''a.mp4'') 50 100 100 Completed]
     (asc ''Progress update: T1, 60/100'')
   = [entry ''T1'' (asc ''a.mp4'') 60 100 60 Downloading]"
  by (simp add: re_defs parse_defs)

lemma completed_then_batch:
  "parse_download_task ascii_ucd env0 [entry ''T1'' (asc ''a.mp4'') 50 100 100 Completed]
     (asc ''batch_file[T1]: Starting'')
   = [entry ''T1'' (asc ''a.mp4'') 50 100 100 Initializing]"
  by (simp add: re_defs parse_defs)

lemma other_progress_not_named:
  "\<not> names_task ascii_ucd env0 (asc ''Progress update: T2, 60/100'') (asc ''T1'')
       (snd (entry ''T1'' (asc ''a.mp4'') 50 100 100 Completed))"
  by (simp add: names_task_def re_defs strip_def entry_def)

lemma huge_line_raises:
  "parse_body ascii_ucd env0 reg (asc huge_progress_line) = Inl OverflowError"
proof -
  have "apply_progress ascii_ucd env0 reg (asc ''T1'', asc huge_digits, asc ''1'') = Inl OverflowError"
    using huge_digits_value one_value huge_quotient
    by (simp add: apply_progress_def raw_progress_def env0_def Let_def)
  then show ?thesis
    by (simp add: parse_body_def huge_line_searches)
qed

lemma line_hello:
  "search (re_task ascii_ucd) (asc ''hello world'') = None"
  "search (re_batch ascii_ucd) (asc ''hello world'') = None"
  "search re_file_start (asc ''hello world'') = None"
  "search (re_progress ascii_ucd) (asc ''hello world'') = None"
  "\<not> completion_keyword ascii_ucd (asc ''hello world'')"
  "\<not> failure_keyword ascii_ucd (asc ''hello world'')"
  by (simp_all add: re_defs completion_keyword_def failure_keyword_def lower_def)

lemma line_upper_completed:
  "search (re_task ascii_ucd) (asc ''file[a.mp4]: COMPLETED'') = None"
  "search (re_batch ascii_ucd) (asc ''file[a.mp4]: COMPLETED'') = None"
  "search re_file_start (asc ''file[a.mp4]: COMPLETED'') = None"
  "search (re_progress ascii_ucd) (asc ''file[a.mp4]: COMPLETED'') = None"
  "completion_keyword ascii_ucd (asc ''file[a.mp4]: COMPLETED'')"
  "search re_complete (asc ''file[a.mp4]: COMPLETED'') = None"
  by (simp_all add: re_defs completion_keyword_def lower_def)

lemma upper_completed_dropped:
  "parse_download_task ascii_ucd env0 [entry ''T1'' (asc ''a.mp4'') 50 100 50 Downloading]
     (asc ''file[a.mp4]: COMPLETED'')
   = [entry ''T1'' (asc ''a.mp4'') 50 100 50 Downloading]"
  by (simp add: parse_download_task_def parse_body_def line_upper_completed)

lemma lower_completed_applied:
  "parse_download_task ascii_ucd env0 [entry ''T1'' (asc ''a.mp4'') 50 100 50 Downloading]
     (asc ''file[a.mp4]: completed'')
   = [entry ''T1'' (asc ''a.mp4'') 50 100 100 Completed]"
  by (simp add: re_defs parse_defs)

lemma upper_failed_applied:
  "parse_download_task ascii_ucd env0 [entry ''T1'' (asc ''a.mp4'') 50 100 50 Downloading]
     (asc ''file[a.mp4]: FAILED'')
   = [entry ''T1'' (asc ''a.mp4'') 50 100 50 Failed]"
  by (simp add: re_defs parse_defs)

lemma two_samples_proc:
  "two_samples ''proc''
     = \<lparr>previous = Some (200, 2), speed = 100, history = [100], cumulative = 100\<rparr>"
  by (simp add: two_samples_def sample_def sample_stream_def no_sample_def push_history_def
        capacity_def Let_def)

section \<open>Lemmas on the dict operations\<close>

lemma fold_delete: "fold AList.delete ks reg = filter (\<lambda>p. fst p \<notin> set ks) reg"
proof (induction ks arbitrary: reg)
  case Nil
  then show ?case by simp
next
  case (Cons k ks)
  have "AList.delete k reg = filter (\<lambda>p. fst p \<noteq> k) reg"
    by (induction reg) (auto simp: AList.delete_eq)
  then show ?case using Cons by (simp add: conj_commute)
qed

lemma filter_keys_of_filter:
  assumes "distinct (map fst reg)"
  shows "filter (\<lambda>p. fst p \<notin> set (map fst (filter P reg))) reg = filter (\<lambda>p. \<not> P p) reg"
proof (rule filter_cong[OF refl])
  fix p assume p: "p \<in> set reg"
  have "fst p \<in> fst ` {q \<in> set reg. P q} \<longleftrightarrow> P p"
  proof
    assume "fst p \<in> fst ` {q \<in> set reg. P q}"
    then obtain q where q: "q \<in> set reg" "P q" "fst q = fst p" by auto
    from assms p q have "q = p"
      by (metis eq_key_imp_eq_value prod.collapse)
    with q show "P p" by simp
  next
    assume "P p" with p show "fst p \<in> fst ` {q \<in> set reg. P q}" by auto
  qed
  then show "(fst p \<notin> set (map fst (filter P reg))) = (\<not> P p)" by simp
qed

lemma completed_neq_all: "asc ''completed'' \<noteq> asc ''all''"
  by (simp add: asc_def)

lemma map_entry_keys: "map fst (AList.map_entry k f reg) = map fst reg"
  by (induction reg) auto

lemma map_entry_set:
  "(k', t') \<in> set (AList.map_entry k f reg) \<Longrightarrow>
     (k', t') \<in> set reg \<or> (k' = k \<and> (\<exists>t. (k, t) \<in> set reg \<and> t' = f t))"
  by (induction reg) (auto split: if_splits)

lemma update_set:
  "(k', t') \<in> set (AList.update k v reg) \<Longrightarrow> (k', t') \<in> set reg \<or> (k' = k \<and> t' = v)"
  by (induction reg) (auto split: if_splits)

lemma first_tid_Some: "first_tid P reg = Some tid \<Longrightarrow> \<exists>t. (tid, t) \<in> set reg \<and> P t"
  by (induction reg) (auto split: if_splits)

lemma first_tid_None: "first_tid P reg = None \<longleftrightarrow> (\<forall>(k, t) \<in> set reg. \<not> P t)"
  by (induction reg) (auto split: if_splits)

lemma reg_inv_map_entry:
  assumes "reg_inv reg" and "\<And>t. task_ok k t \<Longrightarrow> task_ok k (f t)"
  shows "reg_inv (AList.map_entry k f reg)"
  using assms unfolding reg_inv_def
  by (auto simp: map_entry_keys dest!: map_entry_set)

lemma reg_inv_update:
  assumes "reg_inv reg" and "task_ok k v"
  shows "reg_inv (AList.update k v reg)"
  using assms unfolding reg_inv_def
  by (auto simp: distinct_update dest!: update_set)

lemma reg_inv_filter: "reg_inv reg \<Longrightarrow> reg_inv (filter P reg)"
  unfolding reg_inv_def by (auto simp: distinct_map_filter)

lemma has_key_update: "has_key (AList.update k v reg) k"
  by (simp add: has_key_def update_conv')

lemma first_tid_append:
  assumes "\<forall>(k, u) \<in> set pre. \<not> P u" and "P t"
  shows "first_tid P (pre @ (tid, t) # post) = Some tid"
  using assms by (induction pre) auto

lemma map_entry_append:
  assumes "tid \<notin> fst ` set pre"
  shows "AList.map_entry tid f (pre @ (tid, t) # post) = pre @ (tid, f t) # post"
  using assms by (induction pre) auto

lemma first_tid_exists: "(\<exists>(k, t) \<in> set reg. P t) \<Longrightarrow> \<exists>tid. first_tid P reg = Some tid"
  using first_tid_None[of P reg] by (cases "first_tid P reg") auto

section \<open>What the patterns capture, and the numbers\<close>

lemma lazy_dots_nonempty:
  "lazy_dots k acc s = Some r \<Longrightarrow> \<exists>g rest. g \<noteq> [] \<and> k g rest = Some r"
proof (induction s arbitrary: acc)
  case Nil
  then show ?case by simp
next
  case (Cons c cs)
  show ?case
  proof (cases "k (acc @ [c]) cs")
    case None
    with Cons.prems have "lazy_dots k (acc @ [c]) cs = Some r"
      by (simp split: if_splits)
    then show ?thesis by (rule Cons.IH)
  next
    case (Some r')
    with Cons.prems have "r' = r" by (simp split: if_splits)
    with Some have "acc @ [c] \<noteq> [] \<and> k (acc @ [c]) cs = Some r" by simp
    then show ?thesis by blast
  qed
qed

lemma search_Some: "search m s = Some r \<Longrightarrow> \<exists>s'. m s' = Some r"
  by (induction s) (auto split: option.splits)

lemma lit_Some: "lit p k s = Some r \<Longrightarrow> \<exists>s'. k s' = Some r"
  by (auto simp: lit_def split: if_splits)

lemma file_start_nonempty:
  assumes "search re_file_start message = Some fn"
  shows "fn \<noteq> []"
proof -
  from search_Some[OF assms] obtain s where "re_file_start s = Some fn" ..
  then obtain s' where
    "lazy_dots (\<lambda>g. lit (asc '']: Starting file download'') (\<lambda>rest. Some g)) [] s' = Some fn"
    unfolding re_file_start_def by (blast dest: lit_Some)
  from lazy_dots_nonempty[OF this] obtain g rest where
    g: "g \<noteq> []" "lit (asc '']: Starting file download'') (\<lambda>rest. Some g) rest = Some fn"
    by blast
  from lit_Some[OF g(2)] have "fn = g" by auto
  with g(1) show ?thesis by simp
qed

lemma int_of_digits_nonneg: "int_of_digits U acc s = Some n \<Longrightarrow> 0 \<le> acc \<Longrightarrow> 0 \<le> n"
  by (induction U acc s rule: int_of_digits.induct) (auto split: option.splits)

lemma py_int_nonneg: "py_int U m s = Inr n \<Longrightarrow> 0 \<le> n"
  by (auto simp: py_int_def split: if_splits option.splits dest: int_of_digits_nonneg)

lemma spec_progress_raw: "spec_progress d t = map_sum id py_round1 (raw_progress d t)"
  by (cases "true_div d t")
     (simp_all add: spec_progress_def raw_progress_def to_double_def round_half_even_def)

lemma progress_value:
  assumes "raw_progress d t = Inr p"
  shows "spec_progress d t = Inr (py_round1 p)"
  using assms by (simp add: spec_progress_raw)

lemma spec_progress_value:
  assumes "spec_progress d t = Inr v"
  shows "\<exists>p. raw_progress d t = Inr p \<and> py_round1 p = v"
  using assms by (cases "raw_progress d t") (simp_all add: spec_progress_raw)

lemma spec_progress_error:
  assumes "spec_progress d t = Inl err"
  shows "raw_progress d t = Inl err"
  using assms by (cases "raw_progress d t") (simp_all add: spec_progress_raw)

section \<open>The invariant of the reachable registries\<close>

lemma placeholder_nonempty: "placeholder \<noteq> []"
  by (simp add: placeholder_def)

lemma task_ok_new: "fn \<noteq> [] \<Longrightarrow> task_ok tid (new_task tid fn st tm)"
  by (simp add: task_ok_def new_task_def spec_progress_def)

lemma task_ok_initializing: "task_ok k t \<Longrightarrow> task_ok k (t\<lparr>status := Initializing\<rparr>)"
  by (simp add: task_ok_def)

lemma task_ok_started: "fn \<noteq> [] \<Longrightarrow> task_ok k t \<Longrightarrow> task_ok k (t\<lparr>filename := fn, status := Started\<rparr>)"
  by (simp add: task_ok_def)

lemma task_ok_set_progress:
  "0 \<le> d \<Longrightarrow> 0 \<le> t \<Longrightarrow> spec_progress d t = Inr (py_round1 p) \<Longrightarrow> task_ok k task
     \<Longrightarrow> task_ok k (set_progress d t p task)"
  by (simp add: task_ok_def set_progress_def)

lemma task_ok_completed:
  "task_ok k t \<Longrightarrow> task_ok k (t\<lparr>status := Completed, progress := Fin 100\<rparr>)"
  by (simp add: task_ok_def)

lemma task_ok_outcome:
  "task_ok k t \<Longrightarrow> task_ok k (t\<lparr>status := Cancelled\<rparr>)"
  "task_ok k t \<Longrightarrow> task_ok k (t\<lparr>status := Failed\<rparr>)"
  by (simp_all add: task_ok_def)

lemma reg_inv_file_start:
  assumes "reg_inv reg" and "fn \<noteq> []"
  shows "reg_inv (file_start e reg fn)"
  using assms unfolding file_start_def Let_def
  by (auto split: option.splits intro!: reg_inv_map_entry reg_inv_update task_ok_started task_ok_new)

lemma reg_inv_finish:
  assumes "reg_inv reg" and "\<And>k t. task_ok k t \<Longrightarrow> task_ok k (f t)"
  shows "reg_inv (finish reg fn f)"
  using assms unfolding finish_def
  by (auto split: option.splits intro!: reg_inv_map_entry)

lemma reg_inv_apply_progress:
  assumes "reg_inv reg" and "apply_progress U e reg groups = Inr reg'"
  shows "reg_inv reg'"
proof -
  obtain g1 g2 g3 where groups: "groups = (g1, g2, g3)" by (cases groups) auto
  from assms(2) obtain d t p where
    d: "py_int U (max_str_digits e) g2 = Inr d" and t: "py_int U (max_str_digits e) g3 = Inr t"
    and p: "raw_progress d t = Inr p"
    and reg': "reg' = (if has_key reg (strip g1)
                  then AList.map_entry (strip g1) (set_progress d t p) reg
                  else (case first_tid (\<lambda>task. filename task = strip g1) reg of
                          Some tid \<Rightarrow> AList.map_entry tid (set_progress d t p) reg
                        | None \<Rightarrow> reg))"
    unfolding apply_progress_def groups by (auto simp: Let_def split: sum.splits)
  have ok: "task_ok k task \<Longrightarrow> task_ok k (set_progress d t p task)" for k task
    using py_int_nonneg[OF d] py_int_nonneg[OF t] progress_value[OF p]
    by (rule task_ok_set_progress)
  show ?thesis unfolding reg'
    using assms(1) ok by (auto split: option.splits intro!: reg_inv_map_entry)
qed

lemma reg_inv_parse_body:
  assumes "reg_inv reg" and "parse_body U e reg message = Inr reg'"
  shows "reg_inv reg'"
  using assms unfolding parse_body_def
  by (auto split: option.splits if_splits
           intro!: reg_inv_update reg_inv_map_entry reg_inv_file_start reg_inv_finish
                   task_ok_new task_ok_initializing task_ok_completed task_ok_outcome
           simp: placeholder_nonempty
           dest: reg_inv_apply_progress file_start_nonempty)

lemma reg_inv_parse: "reg_inv reg \<Longrightarrow> reg_inv (parse_download_task U e reg message)"
  unfolding parse_download_task_def
  by (auto split: sum.splits dest: reg_inv_parse_body)

lemma reg_inv_delete: "reg_inv reg \<Longrightarrow> reg_inv (AList.delete k reg)"
  by (simp add: AList.delete_eq reg_inv_filter)

lemma reachable_inv: "reachable U reg \<Longrightarrow> reg_inv reg"
proof (induction rule: reachable.induct)
  case reach_init
  show ?case by (simp add: reg_inv_def)
next
  case (reach_parse reg e message)
  then show ?case by (simp add: reg_inv_parse)
next
  case (reach_clear reg clear_type)
  then show ?case by (simp add: clear_tasks_def fold_delete reg_inv_filter)
next
  case (reach_clear_finished reg)
  then show ?case by (simp add: clear_finished_tasks_def fold_delete reg_inv_filter)
next
  case (reach_remove reg tid)
  then show ?case by (simp add: remove_finished_task_def reg_inv_delete)
qed

lemma reachable_run: "reachable ascii_ucd (run ls)"
proof -
  have "reachable ascii_ucd (fold (\<lambda>l reg. parse_download_task ascii_ucd env0 reg (asc l)) ls [])"
  proof (induction ls rule: rev_induct)
    case Nil
    show ?case by (simp add: reach_init)
  next
    case (snoc l ls)
    then show ?case by (simp add: reach_parse)
  qed
  then show ?thesis by (simp add: run_def)
qed

section \<open>Entries that a step does not touch\<close>

lemma has_key_iff: "has_key reg k \<longleftrightarrow> k \<in> fst ` set reg"
  by (simp add: has_key_def map_of_eq_None_iff)

lemma apply_progress_ok:
  assumes "py_int U (max_str_digits e) g2 = Inr d" and "py_int U (max_str_digits e) g3 = Inr t"
    and "spec_progress d t = Inr v"
  shows "apply_progress U e reg (g1, g2, g3) =
     Inr (if has_key reg (strip g1)
          then AList.map_entry (strip g1)
                 (\<lambda>task. task\<lparr>downloaded := d, total := t, progress := v,
                              status := Downloading\<rparr>) reg
          else (case first_tid (\<lambda>task. filename task = strip g1) reg of
                  Some tid \<Rightarrow>
                    AList.map_entry tid
                      (\<lambda>task. task\<lparr>downloaded := d, total := t, progress := v,
                                   status := Downloading\<rparr>) reg
                | None \<Rightarrow> reg))"
proof -
  from spec_progress_value[OF assms(3)] obtain p where
    p: "raw_progress d t = Inr p" and v: "py_round1 p = v" by blast
  have sp: "set_progress d t p
      = (\<lambda>task. task\<lparr>downloaded := d, total := t, progress := v, status := Downloading\<rparr>)"
    using v by (simp add: set_progress_def fun_eq_iff)
  have "apply_progress U e reg (g1, g2, g3) =
     Inr (if has_key reg (strip g1)
          then AList.map_entry (strip g1) (set_progress d t p) reg
          else (case first_tid (\<lambda>task. filename task = strip g1) reg of
                  Some tid \<Rightarrow> AList.map_entry tid (set_progress d t p) reg
                | None \<Rightarrow> reg))"
    unfolding apply_progress_def Let_def prod.case assms(1,2) sum.case p ..
  then show ?thesis unfolding sp .
qed

lemma apply_progress_fails:
  assumes "py_int U (max_str_digits e) g2 = Inl err
     \<or> (\<exists>d. py_int U (max_str_digits e) g2 = Inr d
            \<and> (py_int U (max_str_digits e) g3 = Inl err
                \<or> (\<exists>t. py_int U (max_str_digits e) g3 = Inr t
                        \<and> spec_progress d t = Inl err)))"
  shows "apply_progress U e reg (g1, g2, g3) = Inl err"
  using assms by (auto simp: apply_progress_def Let_def dest: spec_progress_error)

lemma map_of_map_entry_other:
  "k \<noteq> k' \<Longrightarrow> map_of (AList.map_entry k' f reg) k = map_of reg k"
  by (simp add: map_of_map_entry)

lemma map_of_update_other:
  "k \<noteq> k' \<Longrightarrow> map_of (AList.update k' v reg) k = map_of reg k"
  by (simp add: update_conv')

lemma first_tid_other:
  assumes "distinct (map fst reg)" and "map_of reg k = Some t" and "\<not> P t"
    and "first_tid P reg = Some tid"
  shows "map_of (AList.map_entry tid f reg) k = Some t"
proof -
  from first_tid_Some[OF assms(4)] obtain t' where t': "(tid, t') \<in> set reg" "P t'" by blast
  have "tid \<noteq> k"
  proof
    assume "tid = k"
    with t' assms(1) have "map_of reg k = Some t'" by simp
    with assms(2,3) t'(2) show False by simp
  qed
  then show ?thesis using assms(2) by (simp add: map_of_map_entry_other)
qed

lemma finish_other:
  assumes "distinct (map fst reg)" and "map_of reg k = Some t" and "filename t \<noteq> fn"
  shows "map_of (finish reg fn f) k = Some t"
proof (cases "first_tid (\<lambda>task. filename task = fn) reg")
  case None
  with assms(2) show ?thesis by (simp add: finish_def)
next
  case (Some tid)
  from first_tid_other[OF assms(1,2) _ Some, of f] assms(3) Some
  show ?thesis by (simp add: finish_def)
qed

lemma file_start_other:
  assumes "distinct (map fst reg)" and "map_of reg k = Some t"
    and "\<not> holds_placeholder t" and "asc ''auto_'' @ take 8 (uuid4_hex e) \<noteq> k"
  shows "map_of (file_start e reg fn) k = Some t"
proof (cases "first_tid (\<lambda>task. filename task = fn) reg \<noteq> None")
  case True
  with assms(2) show ?thesis by (simp add: file_start_def)
next
  case False
  show ?thesis
  proof (cases "first_tid holds_placeholder reg")
    case None
    with False assms(2,4) show ?thesis
      by (simp add: file_start_def Let_def map_of_update_other)
  next
    case (Some tid)
    from first_tid_other[OF assms(1,2,3) Some] False Some
    show ?thesis by (simp add: file_start_def)
  qed
qed

lemma apply_progress_other:
  assumes "distinct (map fst reg)" and "map_of reg k = Some t"
    and "strip g1 \<noteq> k" and "strip g1 \<noteq> filename t"
    and "apply_progress U e reg (g1, g2, g3) = Inr reg'"
  shows "map_of reg' k = Some t"
proof -
  from assms(5) obtain f where
    reg': "reg' = (if has_key reg (strip g1) then AList.map_entry (strip g1) f reg
                   else (case first_tid (\<lambda>task. filename task = strip g1) reg of
                           Some tid \<Rightarrow> AList.map_entry tid f reg
                         | None \<Rightarrow> reg))"
    unfolding apply_progress_def by (auto simp: Let_def split: sum.splits)
  show ?thesis
  proof (cases "has_key reg (strip g1)")
    case True
    with assms(2,3) show ?thesis by (simp add: reg' map_of_map_entry_other)
  next
    case False
    show ?thesis
    proof (cases "first_tid (\<lambda>task. filename task = strip g1) reg")
      case None
      with False assms(2) show ?thesis by (simp add: reg')
    next
      case (Some tid)
      from first_tid_other[OF assms(1,2) _ Some, of f] assms(4) False Some
      show ?thesis by (simp add: reg')
    qed
  qed
qed

lemma parse_body_errors:
  assumes "parse_body U e reg message = Inl err"
  shows "err = ValueError \<or> err = OverflowError"
proof -
  from assms obtain groups where a: "apply_progress U e reg groups = Inl err"
    unfolding parse_body_def by (auto split: option.splits if_splits)
  obtain g1 g2 g3 where groups: "groups = (g1, g2, g3)" by (cases groups) auto
  have i: "py_int U m s = Inl x \<Longrightarrow> x = ValueError" for m s x
    by (auto simp: py_int_def split: if_splits option.splits)
  have r: "raw_progress d t = Inl x \<Longrightarrow> x = OverflowError" for d t x
    by (auto simp: raw_progress_def true_div_def split: if_splits)
  from a show ?thesis unfolding apply_progress_def groups Let_def
    by (auto split: sum.splits dest: i r)
qed

section \<open>Bounds on the rounded progress\<close>

lemma round_half_even_lower: "of_int a \<le> q \<Longrightarrow> a \<le> round_half_even q"
proof -
  assume "of_int a \<le> q"
  then have "a \<le> \<lfloor>q\<rfloor>" by (simp add: le_floor_iff)
  then show ?thesis by (auto simp: round_half_even_def Let_def)
qed

lemma round_half_even_upper: "q \<le> of_int b \<Longrightarrow> round_half_even q \<le> b"
proof -
  assume q: "q \<le> of_int b"
  then have fl: "\<lfloor>q\<rfloor> \<le> b" by (simp add: floor_le_iff) 
  show ?thesis
  proof (cases "\<lfloor>q\<rfloor> = b")
    case True
    with q have "q = of_int \<lfloor>q\<rfloor>"
      using of_int_floor_le[of q] by simp
    then have "q - of_int \<lfloor>q\<rfloor> = 0" by simp
    with True show ?thesis by (simp add: round_half_even_def Let_def)
  next
    case False
    with fl have "\<lfloor>q\<rfloor> + 1 \<le> b" by simp
    with fl show ?thesis by (auto simp: round_half_even_def Let_def)
  qed
qed

lemma pow2_pos: "0 < pow2 p"
  by (simp add: pow2_def)

lemma exp_down_le: "exp_down x p \<le> p"
proof (induction x p rule: exp_down.induct)
  case (1 x p)
  show ?case
  proof (cases "- 1074 < p \<and> x < pow2 (p + 52)")
    case True
    with 1 have "exp_down x (p - 1) \<le> p - 1" by simp
    with True show ?thesis by (subst exp_down.simps) simp
  next
    case False
    then show ?thesis by (subst exp_down.simps) auto
  qed
qed

lemma to_double_nonneg: "0 \<le> x \<Longrightarrow> 0 \<le> to_double x"
proof (cases "x = 0")
  case True
  then show ?thesis by (simp add: to_double_def)
next
  case False
  assume "0 \<le> x"
  with False have x: "0 < x" by simp
  then have "0 \<le> x / pow2 (ulp_exp x)" using pow2_pos[of "ulp_exp x"] by simp
  then have "0 \<le> round_half_even (x / pow2 (ulp_exp x))"
    using round_half_even_lower[of 0 "x / pow2 (ulp_exp x)"] by simp
  then have "0 \<le> (of_int (round_half_even (x / pow2 (ulp_exp x))) :: rat) * pow2 (ulp_exp x)"
    using pow2_pos[of "ulp_exp x"] by simp
  with x show ?thesis by (simp add: to_double_def)
qed

text \<open>
  Rounding to a double does not pass an integer below \<open>2 ^ 53\<close>: such an integer is
  itself a multiple of the unit of every smaller number.
\<close>

lemma to_double_le_int:
  assumes "0 \<le> x" and "x \<le> of_int c" and "of_int c < pow2 53"
  shows "to_double x \<le> of_int c"
proof (cases "x = 0")
  case True
  with assms show ?thesis by (simp add: to_double_def)
next
  case False
  with assms(1) have x: "0 < x" by simp
  define p where "p = ulp_exp x"
  from assms(2,3) have "x < pow2 53" by simp
  then have "p = exp_down x 0" by (simp add: p_def ulp_exp_def)
  then have p: "p \<le> 0" using exp_down_le[of x 0] by simp
  then have pw: "pow2 p = 1 / 2 ^ nat (- p)"
    by (cases "p = 0") (simp_all add: pow2_def)
  have "x / pow2 p \<le> of_int c / pow2 p"
    using assms(2) pow2_pos[of p] by (simp add: divide_right_mono)
  also have "of_int c / pow2 p = of_int (c * 2 ^ nat (- p))"
    by (simp add: pw)
  finally have "round_half_even (x / pow2 p) \<le> c * 2 ^ nat (- p)"
    by (rule round_half_even_upper)
  then have "(of_int (round_half_even (x / pow2 p)) :: rat) \<le> of_int (c * 2 ^ nat (- p))"
    by (simp only: of_int_le_iff)
  then have "of_int (round_half_even (x / pow2 p)) * pow2 p \<le> of_int (c * 2 ^ nat (- p)) * pow2 p"
    using pow2_pos[of p] by (simp add: mult_right_mono)
  also have "of_int (c * 2 ^ nat (- p)) * pow2 p = of_int c"
    by (simp add: pw)
  finally show ?thesis using x by (simp add: to_double_def p_def)
qed

lemma to_double_le_100: "0 \<le> x \<Longrightarrow> x \<le> 100 \<Longrightarrow> to_double x \<le> 100"
  using to_double_le_int[of x 100] by (simp add: pow2_def)

lemma to_double_le_1: "0 \<le> x \<Longrightarrow> x \<le> 1 \<Longrightarrow> to_double x \<le> 1"
  using to_double_le_int[of x 1] by (simp add: pow2_def)

lemma py_round1_nonneg: "Fin 0 \<le> v \<Longrightarrow> Fin 0 \<le> py_round1 v"
proof (cases v)
  case (Fin x)
  assume "Fin 0 \<le> v"
  with Fin have "0 \<le> x * 10" by simp
  then have "0 \<le> round_half_even (x * 10)"
    using round_half_even_lower[of 0 "x * 10"] by simp
  then have "0 \<le> (of_int (round_half_even (x * 10)) :: rat) / 10" by simp
  then show ?thesis using Fin by (simp add: to_double_nonneg)
next
  case PInf
  then show ?thesis by simp
next
  case NInf
  assume "Fin 0 \<le> v"
  with NInf show ?thesis by simp
qed

lemma py_round1_le_100: "Fin 0 \<le> v \<Longrightarrow> v \<le> Fin 100 \<Longrightarrow> py_round1 v \<le> Fin 100"
proof (cases v)
  case (Fin x)
  assume "Fin 0 \<le> v" and "v \<le> Fin 100"
  with Fin have x: "0 \<le> x" "x \<le> 100" by simp_all
  from x(1) have "0 \<le> round_half_even (x * 10)"
    using round_half_even_lower[of 0 "x * 10"] by simp
  then have lo: "0 \<le> (of_int (round_half_even (x * 10)) :: rat) / 10" by simp
  from x(2) have "x * 10 \<le> of_int 1000" by simp
  then have "round_half_even (x * 10) \<le> 1000" by (rule round_half_even_upper)
  then have "(of_int (round_half_even (x * 10)) :: rat) \<le> 1000"
    by (metis of_int_le_iff of_int_numeral)
  then have hi: "(of_int (round_half_even (x * 10)) :: rat) / 10 \<le> 100" by simp
  from to_double_le_100[OF lo hi] Fin show ?thesis by simp
next
  case PInf
  assume "v \<le> Fin 100"
  with PInf show ?thesis by simp
next
  case NInf
  then show ?thesis by simp
qed

lemma true_div_bounds:
  assumes "0 \<le> d" and "0 < t" and "true_div d t = Inr q"
  shows "0 \<le> q \<and> (d \<le> t \<longrightarrow> q \<le> 1)"
proof -
  from assms(3) have q: "q = to_double (of_int d / of_int t)"
    by (auto simp: true_div_def split: if_splits)
  from assms(1,2) have x: "(0 :: rat) \<le> of_int d / of_int t" by simp
  have "d \<le> t \<Longrightarrow> (of_int d :: rat) / of_int t \<le> 1"
    using assms(2) by simp
  with x show ?thesis unfolding q by (auto intro: to_double_nonneg to_double_le_1)
qed

lemma float_mul_nonneg: "0 \<le> q \<Longrightarrow> Fin 0 \<le> float_mul q 100"
proof -
  assume q: "0 \<le> q"
  have "0 < float_overflow" by (simp add: float_overflow_def)
  then have "float_overflow \<le> \<bar>q * 100\<bar> \<Longrightarrow> 0 < q * 100" using q by auto
  with q show ?thesis by (auto simp: float_mul_def to_double_nonneg)
qed

lemma float_mul_le_100: "0 \<le> q \<Longrightarrow> q \<le> 1 \<Longrightarrow> float_mul q 100 \<le> Fin 100"
proof -
  assume q: "0 \<le> q" "q \<le> 1"
  then have b: "0 \<le> q * 100" "q * 100 \<le> 100" by simp_all
  then have "\<bar>q * 100\<bar> < float_overflow" by (simp add: float_overflow_def)
  with to_double_le_100[OF b] show ?thesis by (simp add: float_mul_def)
qed

lemma raw_progress_bounds:
  assumes "0 \<le> d" and "raw_progress d t = Inr p"
  shows "Fin 0 \<le> p \<and> (d \<le> t \<longrightarrow> p \<le> Fin 100)"
proof (cases "0 < t")
  case True
  with assms(2) obtain q where q: "true_div d t = Inr q" and p: "p = float_mul q 100"
    by (cases "true_div d t") (auto simp: raw_progress_def)
  from true_div_bounds[OF assms(1) True q] show ?thesis
    unfolding p by (auto intro: float_mul_nonneg float_mul_le_100)
next
  case False
  with assms(2) show ?thesis by (auto simp: raw_progress_def)
qed

lemma spec_progress_nonneg: "0 \<le> d \<Longrightarrow> spec_progress d t = Inr v \<Longrightarrow> Fin 0 \<le> v"
  using raw_progress_bounds[of d t] by (auto dest!: spec_progress_value intro: py_round1_nonneg)

lemma spec_progress_le_100:
  "0 \<le> d \<Longrightarrow> d \<le> t \<Longrightarrow> spec_progress d t = Inr v \<Longrightarrow> v \<le> Fin 100"
  using raw_progress_bounds[of d t] by (auto dest!: spec_progress_value intro: py_round1_le_100)

lemma reachable_task_ok: "reachable U reg \<Longrightarrow> (k, t) \<in> set reg \<Longrightarrow> task_ok k t"
  using reachable_inv[of U reg] by (auto simp: reg_inv_def)

section \<open>Clearing the registry\<close>

text \<open>
  C6. On a registry (a dict: the keys are distinct), \<open>clear_tasks\<close> with type \<open>all\<close>
  removes every task and reports their number; with type \<open>completed\<close> it removes
  exactly the entries whose status is Completed, Cancelled or Failed, reports their
  number, and keeps every other entry as it is and in its place, as does
  \<open>clear_finished_tasks\<close>; the same clear applied to the result removes nothing and
  reports 0.
\<close>

theorem clear_tasks_semantics:
  assumes "distinct (map fst reg)"
  shows "clear_tasks (asc ''all'') reg = ([], length reg)
     \<and> clear_tasks (asc ''completed'') reg =
         (filter (\<lambda>(tid, t). status t \<notin> set terminal) reg,
          length (filter (\<lambda>(tid, t). status t \<in> set terminal) reg))
     \<and> clear_finished_tasks reg = filter (\<lambda>(tid, t). status t \<notin> set terminal) reg
     \<and> clear_tasks (asc ''all'') (fst (clear_tasks (asc ''all'') reg))
         = (fst (clear_tasks (asc ''all'') reg), 0)
     \<and> clear_tasks (asc ''completed'') (fst (clear_tasks (asc ''completed'') reg))
         = (fst (clear_tasks (asc ''completed'') reg), 0)"
proof -
  let ?fin = "\<lambda>(tid :: pystr, t :: task). status t \<in> set terminal"
  have all: "to_remove (asc ''all'') r = map fst r" for r
    by (simp add: to_remove_def)
  have com: "to_remove (asc ''completed'') r = map fst (filter ?fin r)" for r
    by (simp add: to_remove_def completed_neq_all)
  have a: "clear_tasks (asc ''all'') r = ([], length r)" for r
    by (simp add: clear_tasks_def all fold_delete)
  have c: "clear_tasks (asc ''completed'') reg =
         (filter (\<lambda>(tid, t). status t \<notin> set terminal) reg, length (filter ?fin reg))"
    using filter_keys_of_filter[OF assms, of ?fin]
    by (simp add: clear_tasks_def com fold_delete case_prod_unfold)
  have f: "clear_finished_tasks reg = filter (\<lambda>(tid, t). status t \<notin> set terminal) reg"
    using filter_keys_of_filter[OF assms, of ?fin]
    by (simp add: clear_finished_tasks_def fold_delete case_prod_unfold)
  have c2: "clear_tasks (asc ''completed'') (filter (\<lambda>(tid, t). status t \<notin> set terminal) reg)
      = (filter (\<lambda>(tid, t). status t \<notin> set terminal) reg, 0)"
    by (simp add: clear_tasks_def com fold_delete case_prod_unfold)
  show ?thesis using a c f c2 by simp
qed

theorem clear_tasks_semantics_witness:
  "distinct (map fst [entry ''T1'' (asc ''a.mp4'') 0 0 100 Completed,
                      entry ''T2'' placeholder 0 0 0 Queued])
   \<and> clear_tasks (asc ''completed'')
        [entry ''T1'' (asc ''a.mp4'') 0 0 100 Completed, entry ''T2'' placeholder 0 0 0 Queued]
      = ([entry ''T2'' placeholder 0 0 0 Queued], 1)
   \<and> clear_tasks (asc ''all'')
        [entry ''T1'' (asc ''a.mp4'') 0 0 100 Completed, entry ''T2'' placeholder 0 0 0 Queued]
      = ([], 2)
   \<and> clear_tasks (asc ''completed'') [entry ''T2'' placeholder 0 0 0 Queued]
      = ([entry ''T2'' placeholder 0 0 0 Queued], 0)"
proof -
  let ?R = "[entry ''T1'' (asc ''a.mp4'') 0 0 100 Completed, entry ''T2'' placeholder 0 0 0 Queued]"
  have d: "distinct (map fst ?R)"
    by (simp add: entry_def asc_def)
  have k: "filter (\<lambda>(tid, t). status t \<notin> set terminal) ?R = [entry ''T2'' placeholder 0 0 0 Queued]"
    by (simp add: entry_def terminal_def)
  have n: "length (filter (\<lambda>(tid, t). status t \<in> set terminal) ?R) = 1"
    by (simp add: entry_def terminal_def)
  note th = clear_tasks_semantics[OF d, unfolded k n]
  have a: "clear_tasks (asc ''all'') ?R = ([], 2)"
    using th by simp
  have c: "clear_tasks (asc ''completed'') ?R = ([entry ''T2'' placeholder 0 0 0 Queued], 1)"
    using th by simp
  have i: "clear_tasks (asc ''completed'') [entry ''T2'' placeholder 0 0 0 Queued]
      = ([entry ''T2'' placeholder 0 0 0 Queued], 0)"
    using th unfolding c by simp
  from d a c i show ?thesis by blast
qed

section \<open>The progress of a task\<close>

text \<open>
  C3, as stated, does not hold: after the lines of the example of the specification
  (discovery, file start, a progress update 50/100, then \<open>downloaded successfully\<close>)
  the task has \<open>downloaded = 50\<close> and \<open>total = 100\<close>, so the formula gives 50.0, and its
  progress is the 100 that the completion line assigns.
\<close>

theorem progress_formula_counterexample:
  "reachable ascii_ucd
     (run [''Processing task: T1'', ''file[a.mp4]: Starting file download'',
           ''Progress update: a.mp4, 50/100'', ''file[a.mp4]: downloaded successfully''])
   \<and> entry ''T1'' (asc ''a.mp4'') 50 100 100 Completed
       \<in> set (run [''Processing task: T1'', ''file[a.mp4]: Starting file download'',
                   ''Progress update: a.mp4, 50/100'', ''file[a.mp4]: downloaded successfully''])
   \<and> 0 < total (snd (entry ''T1'' (asc ''a.mp4'') 50 100 100 Completed))
   \<and> spec_progress (downloaded (snd (entry ''T1'' (asc ''a.mp4'') 50 100 100 Completed)))
                     (total (snd (entry ''T1'' (asc ''a.mp4'') 50 100 100 Completed)))
       = Inr (Fin 50)
   \<and> progress (snd (entry ''T1'' (asc ''a.mp4'') 50 100 100 Completed)) = Fin 100"
  using reachable_run[of "[''Processing task: T1'', ''file[a.mp4]: Starting file download'',
           ''Progress update: a.mp4, 50/100'', ''file[a.mp4]: downloaded successfully'']"]
  by (simp add: run_progress_completed) (simp add: entry_def spec_progress_50_100)

text \<open>
  C3, amended. In every reachable registry the progress of every task is the value of
  \<open>round(downloaded / total * 100, 1)\<close> in the float arithmetic of Python (which
  evaluates without an error on the stored numbers), or 0 when \<open>total\<close> is 0, or it is
  the 100 that a completion line has assigned; for a task whose status is Queued or
  Downloading, so also right after a progress update, it is the value of the formula.
\<close>

theorem progress_formula_or_forced:
  assumes "reachable U reg" and "(k, t) \<in> set reg"
  shows "(spec_progress (downloaded t) (total t) = Inr (progress t) \<or> progress t = Fin 100)
       \<and> (status t = Queued \<or> status t = Downloading
            \<longrightarrow> spec_progress (downloaded t) (total t) = Inr (progress t))"
  using reachable_task_ok[OF assms] by (simp add: task_ok_def)

theorem progress_formula_or_forced_witness:
  "reachable ascii_ucd
     (run [''Processing task: T1'', ''file[a.mp4]: Starting file download'',
           ''Progress update: a.mp4, 23/80''])
   \<and> entry ''T1'' (asc ''a.mp4'') 23 80 (8078331831595827 / 2 ^ 48) Downloading
       \<in> set (run [''Processing task: T1'', ''file[a.mp4]: Starting file download'',
                   ''Progress update: a.mp4, 23/80''])
   \<and> spec_progress 23 80
       = Inr (progress (snd (entry ''T1'' (asc ''a.mp4'') 23 80
                               (8078331831595827 / 2 ^ 48) Downloading)))"
proof -
  let ?L = "[''Processing task: T1'', ''file[a.mp4]: Starting file download'',
             ''Progress update: a.mp4, 23/80'']"
  let ?t = "snd (entry ''T1'' (asc ''a.mp4'') 23 80 (8078331831595827 / 2 ^ 48) Downloading)"
  have r: "reachable ascii_ucd (run ?L)" by (rule reachable_run)
  have m: "(asc ''T1'', ?t) \<in> set (run ?L)"
    by (simp add: run_progress_23_80) (simp add: entry_def)
  have s: "status ?t = Downloading" by (simp add: entry_def)
  have f: "downloaded ?t = 23" "total ?t = 80" by (simp_all add: entry_def)
  from progress_formula_or_forced[OF r m] s
  have "spec_progress (downloaded ?t) (total ?t) = Inr (progress ?t)" by simp
  then have "spec_progress 23 80 = Inr (progress ?t)" unfolding f .
  moreover have "entry ''T1'' (asc ''a.mp4'') 23 80 (8078331831595827 / 2 ^ 48) Downloading
      \<in> set (run ?L)"
    by (simp add: run_progress_23_80)
  ultimately show ?thesis using r by simp
qed

text \<open>
  C4, as stated, does not hold: the progress is not clamped. After a discovery line and
  the progress update \<open>200/100\<close> the progress of the task is 200.
\<close>

theorem progress_range_counterexample:
  "reachable ascii_ucd (run [''Processing task: T1'', ''Progress update: T1, 200/100''])
   \<and> entry ''T1'' placeholder 200 100 200 Downloading
       \<in> set (run [''Processing task: T1'', ''Progress update: T1, 200/100''])
   \<and> \<not> progress (snd (entry ''T1'' placeholder 200 100 200 Downloading)) \<le> Fin 100"
  using reachable_run[of "[''Processing task: T1'', ''Progress update: T1, 200/100'']"]
  by (simp add: run_progress_over) (simp add: entry_def)

text \<open>
  C4, amended. In every reachable registry the progress of every task is at least 0,
  and it is at most 100 for every task whose \<open>downloaded\<close> does not exceed its \<open>total\<close>.
\<close>

theorem progress_range_amended:
  assumes "reachable U reg" and "(k, t) \<in> set reg"
  shows "Fin 0 \<le> progress t \<and> (downloaded t \<le> total t \<longrightarrow> progress t \<le> Fin 100)"
proof -
  from reachable_task_ok[OF assms] have ok: "task_ok k t" .
  then have d: "0 \<le> downloaded t"
    and p: "spec_progress (downloaded t) (total t) = Inr (progress t) \<or> progress t = Fin 100"
    by (simp_all add: task_ok_def)
  from p d have "Fin 0 \<le> progress t"
    using spec_progress_nonneg[of "downloaded t" "total t" "progress t"] by auto
  moreover from p d have "downloaded t \<le> total t \<longrightarrow> progress t \<le> Fin 100"
    using spec_progress_le_100[of "downloaded t" "total t" "progress t"] by auto
  ultimately show ?thesis by simp
qed

theorem progress_range_amended_witness:
  "reachable ascii_ucd
     (run [''Processing task: T1'', ''file[a.mp4]: Starting file download'',
           ''Progress update: a.mp4, 50/100''])
   \<and> entry ''T1'' (asc ''a.mp4'') 50 100 50 Downloading
       \<in> set (run [''Processing task: T1'', ''file[a.mp4]: Starting file download'',
                   ''Progress update: a.mp4, 50/100''])
   \<and> downloaded (snd (entry ''T1'' (asc ''a.mp4'') 50 100 50 Downloading))
       \<le> total (snd (entry ''T1'' (asc ''a.mp4'') 50 100 50 Downloading))
   \<and> Fin 0 \<le> progress (snd (entry ''T1'' (asc ''a.mp4'') 50 100 50 Downloading))
   \<and> progress (snd (entry ''T1'' (asc ''a.mp4'') 50 100 50 Downloading)) \<le> Fin 100"
proof -
  let ?L = "[''Processing task: T1'', ''file[a.mp4]: Starting file download'',
             ''Progress update: a.mp4, 50/100'']"
  let ?t = "snd (entry ''T1'' (asc ''a.mp4'') 50 100 50 Downloading)"
  have r: "reachable ascii_ucd (run ?L)" by (rule reachable_run)
  have m: "(asc ''T1'', ?t) \<in> set (run ?L)"
    by (simp add: run_progress_half) (simp add: entry_def)
  have d: "downloaded ?t \<le> total ?t" by (simp add: entry_def)
  from progress_range_amended[OF r m] d
  have "Fin 0 \<le> progress ?t \<and> progress ?t \<le> Fin 100" by simp
  moreover have "entry ''T1'' (asc ''a.mp4'') 50 100 50 Downloading \<in> set (run ?L)"
    by (simp add: run_progress_half)
  ultimately show ?thesis using r d by simp
qed

section \<open>Task discovery\<close>

text \<open>
  C10. A line in which the pattern \<open>re_task\<close> of step 1 finds the id \<open>tid\<close> leaves a registry that
  has the key \<open>tid\<close> exactly as it is: no field of the task changes and no task is added.
  After the line the key is there, so the same line applied a second time, at any later
  moment, gives the registry that the first application gave.
\<close>

theorem discovery_idempotent:
  assumes "search (re_task U) message = Some tid"
  shows "(has_key reg tid \<longrightarrow> parse_download_task U e reg message = reg)
       \<and> has_key (parse_download_task U e reg message) tid
       \<and> parse_download_task U e' (parse_download_task U e reg message) message
           = parse_download_task U e reg message"
  using assms by (simp add: parse_download_task_def parse_body_def has_key_update)

theorem discovery_idempotent_witness:
  "search (re_task ascii_ucd) (asc ''Processing task: T1'') = Some (asc ''T1'')
   \<and> has_key [entry ''T1'' (asc ''a.mp4'') 50 100 50 Downloading] (asc ''T1'')
   \<and> parse_download_task ascii_ucd env0 [entry ''T1'' (asc ''a.mp4'') 50 100 50 Downloading]
        (asc ''Processing task: T1'')
      = [entry ''T1'' (asc ''a.mp4'') 50 100 50 Downloading]
   \<and> parse_download_task ascii_ucd env0
        (parse_download_task ascii_ucd env0 [] (asc ''Processing task: T1''))
        (asc ''Processing task: T1'')
      = parse_download_task ascii_ucd env0 [] (asc ''Processing task: T1'')"
proof -
  have s: "search (re_task ascii_ucd) (asc ''Processing task: T1'') = Some (asc ''T1'')"
    by (simp add: re_defs)
  have h: "has_key [entry ''T1'' (asc ''a.mp4'') 50 100 50 Downloading] (asc ''T1'')"
    by (simp add: has_key_def entry_def)
  from discovery_idempotent[OF s, of "[entry ''T1'' (asc ''a.mp4'') 50 100 50 Downloading]" env0] h
  have a: "parse_download_task ascii_ucd env0 [entry ''T1'' (asc ''a.mp4'') 50 100 50 Downloading]
        (asc ''Processing task: T1'') = [entry ''T1'' (asc ''a.mp4'') 50 100 50 Downloading]"
    by blast
  from discovery_idempotent[OF s, of "[]" env0 env0]
  have b: "parse_download_task ascii_ucd env0
        (parse_download_task ascii_ucd env0 [] (asc ''Processing task: T1''))
        (asc ''Processing task: T1'')
      = parse_download_task ascii_ucd env0 [] (asc ''Processing task: T1'')"
    by blast
  from s h a b show ?thesis by blast
qed

section \<open>Binding a filename to a task\<close>

text \<open>
  C1, as stated, does not hold for every line of the form
  \<open>file[<name>]: Starting file download\<close>: the steps are tried in order, and a line in
  which the pattern of step 1 or of step 2 matches never reaches step 3. With the name
  \<open>Processing task: x\<close>, and the task \<open>T1\<close> holding the placeholder, the line is a
  discovery line: it makes the task \<open>x\<close>, and the filename is bound to no task.
\<close>

theorem file_start_counterexample:
  "reachable ascii_ucd (run [''Processing task: T1''])
   \<and> run [''Processing task: T1''] = [entry ''T1'' placeholder 0 0 0 Queued]
   \<and> search re_file_start (asc ''file[Processing task: x]: Starting file download'')
       = Some (asc ''Processing task: x'')
   \<and> parse_download_task ascii_ucd env0 (run [''Processing task: T1''])
        (asc ''file[Processing task: x]: Starting file download'')
      = [entry ''T1'' placeholder 0 0 0 Queued, entry ''x'' placeholder 0 0 0 Queued]"
  using reachable_run[of "[''Processing task: T1'']"]
  by (simp add: run_one_queued line_name_is_discovery)

text \<open>
  C1, amended. Let a line be handled by step 3: the patterns of steps 1 and 2 do not
  match it and
  \<open>re_file_start\<close> captures the filename \<open>fn\<close>. On every reachable registry: if some task
  has the filename \<open>fn\<close> already, nothing changes; otherwise the first task in iteration
  order that holds the placeholder filename gets the filename \<open>fn\<close> and the status
  Started, and every other entry stays as it is; a task with the generated id
  \<open>auto_\<close> and eight hexadecimal digits is made when no task has the filename and none
  holds the placeholder; and as long as some task holds the placeholder the line adds no
  key to the registry.
\<close>

theorem file_start_fifo_binding:
  assumes "reachable U reg"
    and "search (re_task U) message = None" and "search (re_batch U) message = None"
    and "search re_file_start message = Some fn"
  shows "((\<exists>(k, t) \<in> set reg. filename t = fn) \<longrightarrow> parse_download_task U e reg message = reg)
     \<and> ((\<forall>(k, t) \<in> set reg. filename t \<noteq> fn) \<longrightarrow>
          (\<forall>pre tid t post.
             reg = pre @ (tid, t) # post \<and> (\<forall>(k, u) \<in> set pre. filename u \<noteq> placeholder)
               \<and> filename t = placeholder
             \<longrightarrow> parse_download_task U e reg message
                   = pre @ (tid, t\<lparr>filename := fn, status := Started\<rparr>) # post))
     \<and> ((\<forall>(k, t) \<in> set reg. filename t \<noteq> fn \<and> filename t \<noteq> placeholder) \<longrightarrow>
          parse_download_task U e reg message
            = AList.update (asc ''auto_'' @ take 8 (uuid4_hex e))
                (new_task (asc ''auto_'' @ take 8 (uuid4_hex e)) fn Started (now e)) reg)
     \<and> ((\<exists>(k, t) \<in> set reg. filename t = placeholder) \<longrightarrow>
          map fst (parse_download_task U e reg message) = map fst reg)"
proof -
  have p: "parse_download_task U e reg message = file_start e reg fn"
    using assms(2-4) by (simp add: parse_download_task_def parse_body_def)
  from reachable_inv[OF assms(1)] have inv: "reg_inv reg" .
  then have ne: "\<forall>(k, t) \<in> set reg. filename t \<noteq> []"
    and dist: "distinct (map fst reg)"
    by (auto simp: reg_inv_def task_ok_def)
  have A: "(\<exists>(k, t) \<in> set reg. filename t = fn) \<longrightarrow> file_start e reg fn = reg"
    using first_tid_None[of "\<lambda>task. filename task = fn" reg]
    by (auto simp: file_start_def)
  have B: "file_start e reg fn = pre @ (tid, t\<lparr>filename := fn, status := Started\<rparr>) # post"
    if nofn: "\<forall>(k, t) \<in> set reg. filename t \<noteq> fn"
      and split: "reg = pre @ (tid, t) # post"
      and pre: "\<forall>(k, u) \<in> set pre. filename u \<noteq> placeholder"
      and t: "filename t = placeholder"
    for pre tid t post
  proof -
    from nofn have n: "first_tid (\<lambda>task. filename task = fn) reg = None"
      by (simp add: first_tid_None)
    from pre ne split have "\<forall>(k, u) \<in> set pre. \<not> holds_placeholder u"
      by (auto simp: holds_placeholder_def)
    moreover from t have "holds_placeholder t" by (simp add: holds_placeholder_def)
    ultimately have f: "first_tid holds_placeholder reg = Some tid"
      unfolding split by (rule first_tid_append)
    from dist split have "tid \<notin> fst ` set pre" by auto
    then have "AList.map_entry tid (\<lambda>task. task\<lparr>filename := fn, status := Started\<rparr>) reg
        = pre @ (tid, t\<lparr>filename := fn, status := Started\<rparr>) # post"
      unfolding split by (rule map_entry_append)
    with n f show ?thesis by (simp add: file_start_def)
  qed
  have C: "(\<forall>(k, t) \<in> set reg. filename t \<noteq> fn \<and> filename t \<noteq> placeholder) \<longrightarrow>
          file_start e reg fn
            = AList.update (asc ''auto_'' @ take 8 (uuid4_hex e))
                (new_task (asc ''auto_'' @ take 8 (uuid4_hex e)) fn Started (now e)) reg"
  proof
    assume a: "\<forall>(k, t) \<in> set reg. filename t \<noteq> fn \<and> filename t \<noteq> placeholder"
    then have n: "first_tid (\<lambda>task. filename task = fn) reg = None"
      by (auto simp: first_tid_None)
    from a ne have "first_tid holds_placeholder reg = None"
      by (auto simp: first_tid_None holds_placeholder_def)
    with n show "file_start e reg fn
            = AList.update (asc ''auto_'' @ take 8 (uuid4_hex e))
                (new_task (asc ''auto_'' @ take 8 (uuid4_hex e)) fn Started (now e)) reg"
      by (simp add: file_start_def Let_def)
  qed
  have D: "(\<exists>(k, t) \<in> set reg. filename t = placeholder) \<longrightarrow>
          map fst (file_start e reg fn) = map fst reg"
  proof
    assume "\<exists>(k, t) \<in> set reg. filename t = placeholder"
    then have "\<exists>(k, t) \<in> set reg. holds_placeholder t"
      by (auto simp: holds_placeholder_def)
    from first_tid_exists[OF this] obtain tid where "first_tid holds_placeholder reg = Some tid" ..
    then show "map fst (file_start e reg fn) = map fst reg"
      by (simp add: file_start_def map_entry_keys)
  qed
  from A B C D show ?thesis unfolding p by blast
qed

theorem file_start_fifo_binding_witness:
  "reachable ascii_ucd
     (run [''Processing task: T1'', ''Processing task: T2'', ''file[x.mp4]: Starting file download''])
   \<and> search (re_task ascii_ucd) (asc ''file[y.mp4]: Starting file download'') = None
   \<and> search (re_batch ascii_ucd) (asc ''file[y.mp4]: Starting file download'') = None
   \<and> search re_file_start (asc ''file[y.mp4]: Starting file download'') = Some (asc ''y.mp4'')
   \<and> run [''Processing task: T1'', ''Processing task: T2'', ''file[x.mp4]: Starting file download'']
      = [entry ''T1'' (asc ''x.mp4'') 0 0 0 Started, entry ''T2'' placeholder 0 0 0 Queued]
   \<and> parse_download_task ascii_ucd env0
        (run [''Processing task: T1'', ''Processing task: T2'',
              ''file[x.mp4]: Starting file download''])
        (asc ''file[y.mp4]: Starting file download'')
      = [entry ''T1'' (asc ''x.mp4'') 0 0 0 Started, entry ''T2'' (asc ''y.mp4'') 0 0 0 Started]"
proof -
  let ?L = "[''Processing task: T1'', ''Processing task: T2'', ''file[x.mp4]: Starting file download'']"
  let ?m = "asc ''file[y.mp4]: Starting file download''"
  have r: "reachable ascii_ucd (run ?L)" by (rule reachable_run)
  note th = file_start_fifo_binding[OF r line_y_start, of env0]
  have nofn: "\<forall>(k, t) \<in> set (run ?L). filename t \<noteq> asc ''y.mp4''"
    by (simp add: run_two_queued_x) (simp add: entry_def asc_def placeholder_def)
  have split: "run ?L = [entry ''T1'' (asc ''x.mp4'') 0 0 0 Started]
                  @ (asc ''T2'', snd (entry ''T2'' placeholder 0 0 0 Queued)) # []"
    by (simp add: run_two_queued_x) (simp add: entry_def)
  have pre: "\<forall>(k, u) \<in> set [entry ''T1'' (asc ''x.mp4'') 0 0 0 Started]. filename u \<noteq> placeholder"
    by (simp add: entry_def asc_def placeholder_def)
  have t: "filename (snd (entry ''T2'' placeholder 0 0 0 Queued)) = placeholder"
    by (simp add: entry_def)
  from th nofn split pre t
  have "parse_download_task ascii_ucd env0 (run ?L) ?m
      = [entry ''T1'' (asc ''x.mp4'') 0 0 0 Started]
        @ (asc ''T2'', (snd (entry ''T2'' placeholder 0 0 0 Queued))
                         \<lparr>filename := asc ''y.mp4'', status := Started\<rparr>) # []"
    by blast
  also have "\<dots> = [entry ''T1'' (asc ''x.mp4'') 0 0 0 Started, entry ''T2'' (asc ''y.mp4'') 0 0 0 Started]"
    by (simp add: entry_def)
  finally have res: "parse_download_task ascii_ucd env0 (run ?L) ?m
      = [entry ''T1'' (asc ''x.mp4'') 0 0 0 Started, entry ''T2'' (asc ''y.mp4'') 0 0 0 Started]" .
  from r line_y_start run_two_queued_x res show ?thesis by blast
qed

section \<open>Progress updates\<close>

text \<open>
  C5, as stated, does not hold for every progress line. The line
  \<open>huge_progress_line\<close> names the existing task \<open>T1\<close>, and both numbers convert; the
  division of the first by the second raises OverflowError, the \<open>except\<close> clause
  swallows it, and the task is not updated: it stays Queued.
\<close>

theorem progress_update_counterexample:
  "reachable ascii_ucd (run [''Processing task: T1''])
   \<and> run [''Processing task: T1''] = [entry ''T1'' placeholder 0 0 0 Queued]
   \<and> search (re_task ascii_ucd) (asc huge_progress_line) = None
   \<and> search (re_batch ascii_ucd) (asc huge_progress_line) = None
   \<and> search re_file_start (asc huge_progress_line) = None
   \<and> search (re_progress ascii_ucd) (asc huge_progress_line)
       = Some (asc ''T1'', asc huge_digits, asc ''1'')
   \<and> has_key (run [''Processing task: T1'']) (asc ''T1'')
   \<and> parse_download_task ascii_ucd env0 (run [''Processing task: T1'']) (asc huge_progress_line)
       = [entry ''T1'' placeholder 0 0 0 Queued]"
proof -
  have h: "has_key (run [''Processing task: T1'']) (asc ''T1'')"
    by (simp add: run_one_queued) (simp add: has_key_def entry_def)
  from reachable_run[of "[''Processing task: T1'']"] run_one_queued huge_line_searches h
    huge_line_dropped[of "run [''Processing task: T1'']"]
  show ?thesis by simp
qed

text \<open>
  C5, amended. Let a line be handled by step 4: the patterns of steps 1 to 3 do not
  match it and \<open>re_progress\<close> captures an identifier and two numbers. On every reachable
  registry: when the numbers convert, that is \<open>int\<close> accepts both and
  \<open>round(d / t * 100, 1)\<close> evaluates without an error to the float \<open>v\<close>, the stripped
  identifier is looked up as a task id first; if it is a key, that entry alone gets the
  two numbers, the progress \<open>v\<close> and the status Downloading. Only if it is no key, the
  first task in iteration order with that filename is updated in the same way, alone.
  If it is neither a key nor a filename, the registry is unchanged and no task is
  created. When the numbers do not convert, the registry is unchanged.
\<close>

theorem progress_update_resolution:
  assumes "reachable U reg"
    and "search (re_task U) message = None" and "search (re_batch U) message = None"
    and "search re_file_start message = None"
    and "search (re_progress U) message = Some (g1, g2, g3)"
  shows "(\<forall>d t v.
            py_int U (max_str_digits e) g2 = Inr d \<and> py_int U (max_str_digits e) g3 = Inr t
              \<and> spec_progress d t = Inr v
            \<longrightarrow>
              (\<forall>pre task post. reg = pre @ (strip g1, task) # post \<longrightarrow>
                 parse_download_task U e reg message
                   = pre @ (strip g1, task\<lparr>downloaded := d, total := t, progress := v,
                                             status := Downloading\<rparr>) # post)
              \<and> (\<not> has_key reg (strip g1) \<longrightarrow>
                   (\<forall>pre tid task post.
                      reg = pre @ (tid, task) # post
                        \<and> (\<forall>(k, u) \<in> set pre. filename u \<noteq> strip g1)
                        \<and> filename task = strip g1
                      \<longrightarrow> parse_download_task U e reg message
                            = pre @ (tid, task\<lparr>downloaded := d, total := t, progress := v,
                                                status := Downloading\<rparr>) # post))
              \<and> (\<not> has_key reg (strip g1) \<and> (\<forall>(k, u) \<in> set reg. filename u \<noteq> strip g1)
                   \<longrightarrow> parse_download_task U e reg message = reg))
     \<and> (\<forall>err.
            py_int U (max_str_digits e) g2 = Inl err
              \<or> (\<exists>d. py_int U (max_str_digits e) g2 = Inr d
                     \<and> (py_int U (max_str_digits e) g3 = Inl err
                         \<or> (\<exists>t. py_int U (max_str_digits e) g3 = Inr t
                                 \<and> spec_progress d t = Inl err)))
            \<longrightarrow> parse_download_task U e reg message = reg)"
proof -
  let ?res = "parse_download_task U e reg message"
  from reachable_inv[OF assms(1)] have dist: "distinct (map fst reg)"
    by (simp add: reg_inv_def)
  have conv: "(\<forall>pre task post. reg = pre @ (strip g1, task) # post \<longrightarrow>
                 ?res = pre @ (strip g1, task\<lparr>downloaded := d, total := t, progress := v,
                                               status := Downloading\<rparr>) # post)
              \<and> (\<not> has_key reg (strip g1) \<longrightarrow>
                   (\<forall>pre tid task post.
                      reg = pre @ (tid, task) # post
                        \<and> (\<forall>(k, u) \<in> set pre. filename u \<noteq> strip g1)
                        \<and> filename task = strip g1
                      \<longrightarrow> ?res = pre @ (tid, task\<lparr>downloaded := d, total := t, progress := v,
                                                  status := Downloading\<rparr>) # post))
              \<and> (\<not> has_key reg (strip g1) \<and> (\<forall>(k, u) \<in> set reg. filename u \<noteq> strip g1)
                   \<longrightarrow> ?res = reg)"
    if d: "py_int U (max_str_digits e) g2 = Inr d"
      and t: "py_int U (max_str_digits e) g3 = Inr t"
      and v: "spec_progress d t = Inr v"
    for d t v
  proof -
    let ?upd = "\<lambda>task. task\<lparr>downloaded := d, total := t, progress := v, status := Downloading\<rparr>"
    have p: "?res =
       (if has_key reg (strip g1) then AList.map_entry (strip g1) ?upd reg
        else (case first_tid (\<lambda>task. filename task = strip g1) reg of
                Some tid \<Rightarrow> AList.map_entry tid ?upd reg
              | None \<Rightarrow> reg))"
      using assms(2-5) apply_progress_ok[OF d t v, of reg g1]
      by (simp add: parse_download_task_def parse_body_def)
    have A: "?res = pre @ (strip g1, ?upd task) # post"
      if split: "reg = pre @ (strip g1, task) # post" for pre task post
    proof -
      from split have "has_key reg (strip g1)" by (simp add: has_key_iff)
      moreover from dist split have "strip g1 \<notin> fst ` set pre" by auto
      then have "AList.map_entry (strip g1) ?upd reg = pre @ (strip g1, ?upd task) # post"
        unfolding split by (rule map_entry_append)
      ultimately show ?thesis by (simp add: p)
    qed
    have B: "?res = pre @ (tid, ?upd task) # post"
      if nk: "\<not> has_key reg (strip g1)" and split: "reg = pre @ (tid, task) # post"
        and pre: "\<forall>(k, u) \<in> set pre. filename u \<noteq> strip g1"
        and fn: "filename task = strip g1"
      for pre tid task post
    proof -
      from pre fn have "first_tid (\<lambda>task. filename task = strip g1) reg = Some tid"
        unfolding split by (intro first_tid_append) auto
      moreover from dist split have "tid \<notin> fst ` set pre" by auto
      then have "AList.map_entry tid ?upd reg = pre @ (tid, ?upd task) # post"
        unfolding split by (rule map_entry_append)
      ultimately show ?thesis using nk by (simp add: p)
    qed
    have C: "\<not> has_key reg (strip g1) \<and> (\<forall>(k, u) \<in> set reg. filename u \<noteq> strip g1)
        \<longrightarrow> ?res = reg"
      using first_tid_None[of "\<lambda>task. filename task = strip g1" reg] by (auto simp: p)
    from A B C show ?thesis by blast
  qed
  have fail: "?res = reg"
    if "py_int U (max_str_digits e) g2 = Inl err
          \<or> (\<exists>d. py_int U (max_str_digits e) g2 = Inr d
                 \<and> (py_int U (max_str_digits e) g3 = Inl err
                     \<or> (\<exists>t. py_int U (max_str_digits e) g3 = Inr t
                             \<and> spec_progress d t = Inl err)))"
    for err
    using assms(2-5) apply_progress_fails[OF that, of reg g1]
    by (simp add: parse_download_task_def parse_body_def)
  from conv fail show ?thesis by blast
qed

theorem progress_update_resolution_witness:
  "reachable ascii_ucd (run [''Processing task: T1'', ''file[a.mp4]: Starting file download''])
   \<and> search (re_task ascii_ucd) (asc ''Progress update: a.mp4, 23/80'') = None
   \<and> search (re_batch ascii_ucd) (asc ''Progress update: a.mp4, 23/80'') = None
   \<and> search re_file_start (asc ''Progress update: a.mp4, 23/80'') = None
   \<and> search (re_progress ascii_ucd) (asc ''Progress update: a.mp4, 23/80'')
       = Some (asc ''a.mp4'', asc ''23'', asc ''80'')
   \<and> py_int ascii_ucd (max_str_digits env0) (asc ''23'') = Inr 23
   \<and> py_int ascii_ucd (max_str_digits env0) (asc ''80'') = Inr 80
   \<and> spec_progress 23 80 = Inr (Fin (8078331831595827 / 2 ^ 48))
   \<and> \<not> has_key (run [''Processing task: T1'', ''file[a.mp4]: Starting file download''])
         (strip (asc ''a.mp4''))
   \<and> parse_download_task ascii_ucd env0
        (run [''Processing task: T1'', ''file[a.mp4]: Starting file download''])
        (asc ''Progress update: a.mp4, 23/80'')
      = [entry ''T1'' (asc ''a.mp4'') 23 80 (8078331831595827 / 2 ^ 48) Downloading]"
proof -
  let ?L = "[''Processing task: T1'', ''file[a.mp4]: Starting file download'']"
  let ?m = "asc ''Progress update: a.mp4, 23/80''"
  have r: "reachable ascii_ucd (run ?L)" by (rule reachable_run)
  have d: "py_int ascii_ucd (max_str_digits env0) (asc ''23'') = Inr 23"
    by (simp add: py_int_def asc_def digit_value_def env0_def)
  have t: "py_int ascii_ucd (max_str_digits env0) (asc ''80'') = Inr 80"
    by (simp add: py_int_def asc_def digit_value_def env0_def)
  have s: "strip (asc ''a.mp4'') = asc ''a.mp4''"
    by (simp add: strip_def asc_def is_space_def)
  have nk: "\<not> has_key (run ?L) (strip (asc ''a.mp4''))"
    unfolding s by (simp add: run_started) (simp add: has_key_def entry_def asc_def)
  have split: "run ?L = [] @ (asc ''T1'', snd (entry ''T1'' (asc ''a.mp4'') 0 0 0 Started)) # []"
    by (simp add: run_started) (simp add: entry_def)
  have fn: "filename (snd (entry ''T1'' (asc ''a.mp4'') 0 0 0 Started)) = strip (asc ''a.mp4'')"
    unfolding s by (simp add: entry_def)
  have pre: "\<forall>(k, u) \<in> set []. filename u \<noteq> strip (asc ''a.mp4'')" by simp
  note th = progress_update_resolution[OF r line_progress_a, of env0]
  from th d t spec_progress_23_80 nk split fn pre
  have "parse_download_task ascii_ucd env0 (run ?L) ?m
      = [] @ (asc ''T1'', (snd (entry ''T1'' (asc ''a.mp4'') 0 0 0 Started))
                \<lparr>downloaded := 23, total := 80,
                   progress := Fin (8078331831595827 / 2 ^ 48),
                   status := Downloading\<rparr>) # []"
    by blast
  also have "\<dots> = [entry ''T1'' (asc ''a.mp4'') 23 80 (8078331831595827 / 2 ^ 48) Downloading]"
    by (simp add: entry_def)
  finally have res: "parse_download_task ascii_ucd env0 (run ?L) ?m
      = [entry ''T1'' (asc ''a.mp4'') 23 80 (8078331831595827 / 2 ^ 48) Downloading]" .
  from r line_progress_a d t spec_progress_23_80 nk res show ?thesis by blast
qed

section \<open>Terminal states\<close>

text \<open>
  C2, as stated, does not hold: no step of \<open>parse_download_task\<close> looks at the status
  it overwrites. A task that is Completed becomes Downloading by a later progress update
  with its id, and Initializing by a later batch line with its id.
\<close>

theorem terminal_absorbing_counterexample:
  "reachable ascii_ucd
     (run [''Processing task: T1'', ''file[a.mp4]: Starting file download'',
           ''Progress update: a.mp4, 50/100'', ''file[a.mp4]: downloaded successfully''])
   \<and> run [''Processing task: T1'', ''file[a.mp4]: Starting file download'',
          ''Progress update: a.mp4, 50/100'', ''file[a.mp4]: downloaded successfully'']
      = [entry ''T1'' (asc ''a.mp4'') 50 100 100 Completed]
   \<and> Completed \<in> set terminal
   \<and> parse_download_task ascii_ucd env0
        (run [''Processing task: T1'', ''file[a.mp4]: Starting file download'',
              ''Progress update: a.mp4, 50/100'', ''file[a.mp4]: downloaded successfully''])
        (asc ''Progress update: T1, 60/100'')
      = [entry ''T1'' (asc ''a.mp4'') 60 100 60 Downloading]
   \<and> parse_download_task ascii_ucd env0
        (run [''Processing task: T1'', ''file[a.mp4]: Starting file download'',
              ''Progress update: a.mp4, 50/100'', ''file[a.mp4]: downloaded successfully''])
        (asc ''batch_file[T1]: Starting'')
      = [entry ''T1'' (asc ''a.mp4'') 50 100 100 Initializing]
   \<and> Downloading \<notin> set terminal \<and> Initializing \<notin> set terminal"
  using reachable_run[of "[''Processing task: T1'', ''file[a.mp4]: Starting file download'',
           ''Progress update: a.mp4, 50/100'', ''file[a.mp4]: downloaded successfully'']"]
  by (simp add: run_progress_completed completed_then_progress completed_then_batch terminal_def)

text \<open>
  C2, amended. In every reachable registry a task whose status is Completed, Cancelled
  or Failed is left as it is, with its status and every other field, by every log line
  that does not name it (\<open>names_task\<close>): by every discovery line, by a batch line with
  another id, by a file start line unless the task holds the placeholder or the
  generated id is its own, by a progress update whose identifier is neither its id nor
  its filename, by an outcome line that captures another filename, and by a line that no
  pattern matches. Nothing is stated of a line that names the task: it may overwrite the
  status, as above, or leave the task as it is.
\<close>

theorem terminal_kept_unless_named:
  assumes "reachable U reg" and "map_of reg k = Some t" and "status t \<in> set terminal"
    and "\<not> names_task U e message k t"
  shows "map_of (parse_download_task U e reg message) k = Some t"
proof -
  from reachable_inv[OF assms(1)] have dist: "distinct (map fst reg)"
    by (simp add: reg_inv_def)
  show ?thesis
  proof (cases "search (re_task U) message")
    case (Some tid)
    then show ?thesis using assms(2)
      by (auto simp: parse_download_task_def parse_body_def has_key_def update_conv')
  next
    case task: None
    show ?thesis
    proof (cases "search (re_batch U) message")
      case (Some tid)
      with task assms(4) have "tid \<noteq> k" by (simp add: names_task_def)
      with task Some assms(2) show ?thesis
        by (simp add: parse_download_task_def parse_body_def map_of_map_entry_other)
    next
      case batch: None
      show ?thesis
      proof (cases "search re_file_start message")
        case (Some fn)
        with task batch assms(4)
        have "\<not> holds_placeholder t" "asc ''auto_'' @ take 8 (uuid4_hex e) \<noteq> k"
          by (simp_all add: names_task_def)
        from file_start_other[OF dist assms(2) this] task batch Some show ?thesis
          by (simp add: parse_download_task_def parse_body_def)
      next
        case start: None
        show ?thesis
        proof (cases "search (re_progress U) message")
          case (Some groups)
          obtain g1 g2 g3 where groups: "groups = (g1, g2, g3)" by (cases groups) auto
          with task batch start Some assms(4)
          have n: "strip g1 \<noteq> k" "strip g1 \<noteq> filename t"
            by (simp_all add: names_task_def)
          show ?thesis
          proof (cases "apply_progress U e reg (g1, g2, g3)")
            case (Inl err)
            with task batch start Some groups assms(2) show ?thesis
              by (simp add: parse_download_task_def parse_body_def)
          next
            case (Inr reg')
            from apply_progress_other[OF dist assms(2) n Inr] task batch start Some groups Inr
            show ?thesis by (simp add: parse_download_task_def parse_body_def)
          qed
        next
          case prog: None
          show ?thesis
          proof (cases "completion_keyword U message")
            case True
            with task batch start prog assms(4)
            have "search re_complete message \<noteq> Some (filename t)"
              by (simp add: names_task_def)
            with True task batch start prog assms(2) dist show ?thesis
              by (auto simp: parse_download_task_def parse_body_def finish_other
                       split: option.splits)
          next
            case False
            show ?thesis
            proof (cases "failure_keyword U message")
              case True
              with False task batch start prog assms(4)
              have "search re_error message \<noteq> Some (filename t)"
                by (simp add: names_task_def)
              with True False task batch start prog assms(2) dist show ?thesis
                by (auto simp: parse_download_task_def parse_body_def finish_other
                         split: option.splits)
            next
              case nf: False
              with False task batch start prog assms(2) show ?thesis
                by (simp add: parse_download_task_def parse_body_def)
            qed
          qed
        qed
      qed
    qed
  qed
qed

theorem terminal_kept_unless_named_witness:
  "reachable ascii_ucd
     (run [''Processing task: T1'', ''file[a.mp4]: Starting file download'',
           ''Progress update: a.mp4, 50/100'', ''file[a.mp4]: downloaded successfully''])
   \<and> map_of (run [''Processing task: T1'', ''file[a.mp4]: Starting file download'',
                  ''Progress update: a.mp4, 50/100'', ''file[a.mp4]: downloaded successfully''])
        (asc ''T1'')
      = Some (snd (entry ''T1'' (asc ''a.mp4'') 50 100 100 Completed))
   \<and> status (snd (entry ''T1'' (asc ''a.mp4'') 50 100 100 Completed)) \<in> set terminal
   \<and> \<not> names_task ascii_ucd env0 (asc ''Progress update: T2, 60/100'') (asc ''T1'')
         (snd (entry ''T1'' (asc ''a.mp4'') 50 100 100 Completed))
   \<and> map_of (parse_download_task ascii_ucd env0
        (run [''Processing task: T1'', ''file[a.mp4]: Starting file download'',
              ''Progress update: a.mp4, 50/100'', ''file[a.mp4]: downloaded successfully''])
        (asc ''Progress update: T2, 60/100'')) (asc ''T1'')
      = Some (snd (entry ''T1'' (asc ''a.mp4'') 50 100 100 Completed))"
proof -
  let ?L = "[''Processing task: T1'', ''file[a.mp4]: Starting file download'',
             ''Progress update: a.mp4, 50/100'', ''file[a.mp4]: downloaded successfully'']"
  let ?t = "snd (entry ''T1'' (asc ''a.mp4'') 50 100 100 Completed)"
  have r: "reachable ascii_ucd (run ?L)" by (rule reachable_run)
  have m: "map_of (run ?L) (asc ''T1'') = Some ?t"
    by (simp add: run_progress_completed) (simp add: entry_def)
  have s: "status ?t \<in> set terminal" by (simp add: entry_def terminal_def)
  from r m s other_progress_not_named
    terminal_kept_unless_named[OF r m s other_progress_not_named]
  show ?thesis by blast
qed

section \<open>Lines that are dropped\<close>

text \<open>
  C7. \<open>parse_download_task\<close> returns a registry for every line. The body of its \<open>try\<close>
  block can only fail in step 4, with the ValueError of \<open>int\<close> or the OverflowError of the
  division (never with a division by zero), and then the registry is left as it was.
  The registry is also left as it was by a line that no pattern and no keyword matches,
  by a batch line whose id is no key, by a progress update whose identifier is neither a
  key nor a filename (whether its numbers convert or not), and by an outcome line that
  captures no filename or the filename of no task.
\<close>

theorem parse_total_and_frame:
  "(parse_body U e reg message = Inl err \<longrightarrow>
       (err = ValueError \<or> err = OverflowError) \<and> parse_download_task U e reg message = reg)
   \<and> (search (re_task U) message = None \<and> search (re_batch U) message = None
        \<and> search re_file_start message = None \<and> search (re_progress U) message = None
        \<and> \<not> completion_keyword U message \<and> \<not> failure_keyword U message
      \<longrightarrow> parse_download_task U e reg message = reg)
   \<and> (search (re_task U) message = None \<and> search (re_batch U) message = Some tid
        \<and> \<not> has_key reg tid
      \<longrightarrow> parse_download_task U e reg message = reg)
   \<and> (search (re_task U) message = None \<and> search (re_batch U) message = None
        \<and> search re_file_start message = None
        \<and> search (re_progress U) message = Some (g1, g2, g3)
        \<and> \<not> has_key reg (strip g1) \<and> (\<forall>(k, t) \<in> set reg. filename t \<noteq> strip g1)
      \<longrightarrow> parse_download_task U e reg message = reg)
   \<and> (search (re_task U) message = None \<and> search (re_batch U) message = None
        \<and> search re_file_start message = None \<and> search (re_progress U) message = None
        \<and> completion_keyword U message
        \<and> (search re_complete message = None
            \<or> (\<exists>fn. search re_complete message = Some fn
                      \<and> (\<forall>(k, t) \<in> set reg. filename t \<noteq> fn)))
      \<longrightarrow> parse_download_task U e reg message = reg)
   \<and> (search (re_task U) message = None \<and> search (re_batch U) message = None
        \<and> search re_file_start message = None \<and> search (re_progress U) message = None
        \<and> \<not> completion_keyword U message \<and> failure_keyword U message
        \<and> (search re_error message = None
            \<or> (\<exists>fn. search re_error message = Some fn
                      \<and> (\<forall>(k, t) \<in> set reg. filename t \<noteq> fn)))
      \<longrightarrow> parse_download_task U e reg message = reg)"
proof -
  have none: "(\<forall>(k, t) \<in> set reg. filename t \<noteq> fn)
       \<Longrightarrow> first_tid (\<lambda>task. filename task = fn) reg = None" for fn
    by (simp add: first_tid_None)
  have E: "parse_body U e reg message = Inl err \<longrightarrow>
       (err = ValueError \<or> err = OverflowError) \<and> parse_download_task U e reg message = reg"
    using parse_body_errors[of U e reg message err] by (simp add: parse_download_task_def)
  have N: "search (re_task U) message = None \<and> search (re_batch U) message = None
        \<and> search re_file_start message = None \<and> search (re_progress U) message = None
        \<and> \<not> completion_keyword U message \<and> \<not> failure_keyword U message
      \<longrightarrow> parse_download_task U e reg message = reg"
    by (simp add: parse_download_task_def parse_body_def)
  have B: "search (re_task U) message = None \<and> search (re_batch U) message = Some tid
        \<and> \<not> has_key reg tid
      \<longrightarrow> parse_download_task U e reg message = reg"
    by (simp add: parse_download_task_def parse_body_def)
  have P: "search (re_task U) message = None \<and> search (re_batch U) message = None
        \<and> search re_file_start message = None
        \<and> search (re_progress U) message = Some (g1, g2, g3)
        \<and> \<not> has_key reg (strip g1) \<and> (\<forall>(k, t) \<in> set reg. filename t \<noteq> strip g1)
      \<longrightarrow> parse_download_task U e reg message = reg"
  proof
    assume a: "search (re_task U) message = None \<and> search (re_batch U) message = None
        \<and> search re_file_start message = None
        \<and> search (re_progress U) message = Some (g1, g2, g3)
        \<and> \<not> has_key reg (strip g1) \<and> (\<forall>(k, t) \<in> set reg. filename t \<noteq> strip g1)"
    then have n: "first_tid (\<lambda>task. filename task = strip g1) reg = None"
      by (simp add: none)
    have "apply_progress U e reg (g1, g2, g3) = Inr reg' \<Longrightarrow> reg' = reg" for reg'
      using a n unfolding apply_progress_def Let_def
      by (auto split: sum.splits)
    with a show "parse_download_task U e reg message = reg"
      by (cases "apply_progress U e reg (g1, g2, g3)")
         (simp_all add: parse_download_task_def parse_body_def)
  qed
  have C: "search (re_task U) message = None \<and> search (re_batch U) message = None
        \<and> search re_file_start message = None \<and> search (re_progress U) message = None
        \<and> completion_keyword U message
        \<and> (search re_complete message = None
            \<or> (\<exists>fn. search re_complete message = Some fn
                      \<and> (\<forall>(k, t) \<in> set reg. filename t \<noteq> fn)))
      \<longrightarrow> parse_download_task U e reg message = reg"
    by (auto simp: parse_download_task_def parse_body_def finish_def none)
  have F: "search (re_task U) message = None \<and> search (re_batch U) message = None
        \<and> search re_file_start message = None \<and> search (re_progress U) message = None
        \<and> \<not> completion_keyword U message \<and> failure_keyword U message
        \<and> (search re_error message = None
            \<or> (\<exists>fn. search re_error message = Some fn
                      \<and> (\<forall>(k, t) \<in> set reg. filename t \<noteq> fn)))
      \<longrightarrow> parse_download_task U e reg message = reg"
    by (auto simp: parse_download_task_def parse_body_def finish_def none)
  from E N B P C F show ?thesis by blast
qed

theorem parse_total_and_frame_witness:
  "search (re_task ascii_ucd) (asc ''hello world'') = None
   \<and> search (re_batch ascii_ucd) (asc ''hello world'') = None
   \<and> search re_file_start (asc ''hello world'') = None
   \<and> search (re_progress ascii_ucd) (asc ''hello world'') = None
   \<and> \<not> completion_keyword ascii_ucd (asc ''hello world'')
   \<and> \<not> failure_keyword ascii_ucd (asc ''hello world'')
   \<and> parse_download_task ascii_ucd env0 [entry ''T1'' placeholder 0 0 0 Queued]
        (asc ''hello world'') = [entry ''T1'' placeholder 0 0 0 Queued]
   \<and> parse_body ascii_ucd env0 [entry ''T1'' placeholder 0 0 0 Queued] (asc huge_progress_line)
        = Inl OverflowError
   \<and> parse_download_task ascii_ucd env0 [entry ''T1'' placeholder 0 0 0 Queued]
        (asc huge_progress_line) = [entry ''T1'' placeholder 0 0 0 Queued]"
proof -
  let ?R = "[entry ''T1'' placeholder 0 0 0 Queued]"
  have a: "parse_download_task ascii_ucd env0 ?R (asc ''hello world'') = ?R"
    using parse_total_and_frame[of ascii_ucd env0 ?R "asc ''hello world''"] line_hello
    by blast
  have b: "parse_download_task ascii_ucd env0 ?R (asc huge_progress_line) = ?R"
    using parse_total_and_frame[of ascii_ucd env0 ?R "asc huge_progress_line" OverflowError]
      huge_line_raises[of ?R]
    by blast
  from line_hello a huge_line_raises[of ?R] b show ?thesis by blast
qed

section \<open>Outcome lines and the case of their keywords\<close>

text \<open>
  C8 does not hold of the code for the keyword \<open>completed\<close>. Step 5 lets the line
  \<open>file[a.mp4]: COMPLETED\<close> in, since it tests the keyword on the lower-cased message,
  but its pattern \<open>re_complete\<close> is matched on the message as it is and finds nothing:
  the task \<open>a.mp4\<close> stays Downloading. The same line in lower case completes the task,
  and the failure branch, whose pattern has no keyword in it, takes \<open>FAILED\<close> in upper
  case.
\<close>

theorem upper_case_completed_not_applied:
  "run [''Processing task: T1'', ''file[a.mp4]: Starting file download'',
        ''Progress update: a.mp4, 50/100'']
     = [entry ''T1'' (asc ''a.mp4'') 50 100 50 Downloading]
   \<and> completion_keyword ascii_ucd (asc ''file[a.mp4]: COMPLETED'')
   \<and> search re_complete (asc ''file[a.mp4]: COMPLETED'') = None
   \<and> parse_download_task ascii_ucd env0
        (run [''Processing task: T1'', ''file[a.mp4]: Starting file download'',
              ''Progress update: a.mp4, 50/100''])
        (asc ''file[a.mp4]: COMPLETED'')
      = [entry ''T1'' (asc ''a.mp4'') 50 100 50 Downloading]
   \<and> parse_download_task ascii_ucd env0
        (run [''Processing task: T1'', ''file[a.mp4]: Starting file download'',
              ''Progress update: a.mp4, 50/100''])
        (asc ''file[a.mp4]: completed'')
      = [entry ''T1'' (asc ''a.mp4'') 50 100 100 Completed]
   \<and> parse_download_task ascii_ucd env0
        (run [''Processing task: T1'', ''file[a.mp4]: Starting file download'',
              ''Progress update: a.mp4, 50/100''])
        (asc ''file[a.mp4]: FAILED'')
      = [entry ''T1'' (asc ''a.mp4'') 50 100 50 Failed]"
  by (simp add: run_progress_half line_upper_completed upper_completed_dropped
        lower_completed_applied upper_failed_applied)

section \<open>The rate sampler: first sample and counter reset\<close>

text \<open>
  C9, as stated, does not hold of the sampler of section 4.3, which tests the time
  difference first: a reading at the time of the recorded one is answered with the last
  speed and is not recorded, also when its counter value is lower. After the readings
  100 at time 1 and 200 at time 2, the reading 50 at time 2 reports the speed 100 and
  leaves the recorded reading at 200.
\<close>

theorem rate_sampler_reset_counterexample:
  "previous (two_samples ''proc'') = Some (200, 2)
   \<and> (50 :: int) < 200
   \<and> fst (sample two_samples ''proc'' 50 2) = 100
   \<and> previous (snd (sample two_samples ''proc'' 50 2) ''proc'') = Some (200, 2)"
  by (simp add: sample_def sample_stream_def two_samples_proc Let_def)

text \<open>
  C9, amended. For every stream key: the first call records the reading and reports the
  speed 0; every later call whose timestamp is after the recorded one and whose counter
  value is below the recorded one reports the speed 0, records the new reading and
  leaves the cumulative total as it was; a call whose timestamp is not after the
  recorded one reports the last speed and changes nothing; no call makes the cumulative
  total smaller, and no call changes another stream.
\<close>

theorem rate_sampler_reset:
  "(previous (S key) = None \<longrightarrow>
      fst (sample S key c ts) = 0
      \<and> previous (snd (sample S key c ts) key) = Some (c, ts)
      \<and> cumulative (snd (sample S key c ts) key) = cumulative (S key))
   \<and> (previous (S key) = Some (pc, pts) \<and> c < pc \<and> pts < ts \<longrightarrow>
      fst (sample S key c ts) = 0
      \<and> previous (snd (sample S key c ts) key) = Some (c, ts)
      \<and> cumulative (snd (sample S key c ts) key) = cumulative (S key))
   \<and> (previous (S key) = Some (pc, pts) \<and> ts \<le> pts \<longrightarrow>
      sample S key c ts = (speed (S key), S))
   \<and> cumulative (S key) \<le> cumulative (snd (sample S key c ts) key)
   \<and> (key' \<noteq> key \<longrightarrow> snd (sample S key c ts) key' = S key')"
proof -
  have first: "previous (S key) = None \<longrightarrow>
      fst (sample S key c ts) = 0
      \<and> previous (snd (sample S key c ts) key) = Some (c, ts)
      \<and> cumulative (snd (sample S key c ts) key) = cumulative (S key)"
    by (simp add: sample_def sample_stream_def)
  have reset: "previous (S key) = Some (pc, pts) \<and> c < pc \<and> pts < ts \<longrightarrow>
      fst (sample S key c ts) = 0
      \<and> previous (snd (sample S key c ts) key) = Some (c, ts)
      \<and> cumulative (snd (sample S key c ts) key) = cumulative (S key)"
    by (simp add: sample_def sample_stream_def Let_def)
  have stale: "previous (S key) = Some (pc, pts) \<and> ts \<le> pts \<longrightarrow>
      sample S key c ts = (speed (S key), S)"
    by (simp add: sample_def sample_stream_def Let_def)
  have mono: "cumulative (S key) \<le> cumulative (snd (sample S key c ts) key)"
  proof (cases "previous (S key)")
    case None
    then show ?thesis by (simp add: sample_def sample_stream_def)
  next
    case (Some reading)
    obtain pc' pts' where "reading = (pc', pts')" by (cases reading) auto
    with Some show ?thesis
      by (simp add: sample_def sample_stream_def Let_def)
  qed
  have frame: "key' \<noteq> key \<longrightarrow> snd (sample S key c ts) key' = S key'"
    by (simp add: sample_def split: prod.splits)
  from first reset stale mono frame show ?thesis by blast
qed

theorem rate_sampler_reset_witness:
  "previous (two_samples ''proc'') = Some (200, 2)
   \<and> (50 :: int) < 200 \<and> (2 :: rat) < 3
   \<and> fst (sample two_samples ''proc'' 50 3) = 0
   \<and> previous (snd (sample two_samples ''proc'' 50 3) ''proc'') = Some (50, 3)
   \<and> cumulative (snd (sample two_samples ''proc'' 50 3) ''proc'') = 100"
proof -
  have p: "previous (two_samples ''proc'') = Some (200, 2)"
    by (simp add: two_samples_proc)
  have c: "cumulative (two_samples ''proc'') = 100"
    by (simp add: two_samples_proc)
  from rate_sampler_reset[of two_samples "''proc''" 50 3 200 2] p c
  show ?thesis by simp
qed

end
